theory Spec2Isabelle
  imports Main "HOL-Library.Multiset"
begin

section \<open>The JavaScript values the reminder engine computes with\<close>

text \<open>
  The program is \<^verbatim>\<open>src/app/src/app/page.tsx\<close>: a task list with reminders. Everything it
  decides rests on the time value of a \<^verbatim>\<open>Date\<close>, which is either an integral number of
  milliseconds since the epoch or \<^verbatim>\<open>NaN\<close> (an invalid date). Arithmetic with \<^verbatim>\<open>NaN\<close> gives
  \<^verbatim>\<open>NaN\<close> and every comparison with \<^verbatim>\<open>NaN\<close> is false.

  Time values and \<^verbatim>\<open>remindBefore\<close> are modelled as unbounded integers: integers are exact
  in a JavaScript double up to \<open>2^53\<close>, above any time value the \<^verbatim>\<open>Date\<close> constructor accepts
  (\<open>8.64 * 10^15\<close>). What \<^verbatim>\<open>Number\<close> reads from a string is modelled as a double, with its
  rounding.
\<close>

datatype jsnum = NaN | Num int

fun js_sub :: "jsnum \<Rightarrow> jsnum \<Rightarrow> jsnum" where
  "js_sub (Num a) (Num b) = Num (a - b)"
| "js_sub _ _ = NaN"

fun js_ge :: "jsnum \<Rightarrow> jsnum \<Rightarrow> bool" where
  "js_ge (Num a) (Num b) = (b \<le> a)"
| "js_ge _ _ = False"

fun js_gt :: "jsnum \<Rightarrow> jsnum \<Rightarrow> bool" where
  "js_gt (Num a) (Num b) = (b < a)"
| "js_gt _ _ = False"

subsection \<open>\<^verbatim>\<open>String.prototype.split\<close> with a one-character separator\<close>

text \<open>
  A string is modelled by the bytes of its UTF-8 encoding. The separators, signs and
  digits of a date or a time are ASCII, and an ASCII byte is never part of the encoding
  of another character, so splitting and reading numbers on the bytes is splitting and
  reading on the characters.

  \<^verbatim>\<open>s.split(sep)\<close> cuts at every occurrence of the separator and keeps empty pieces; the empty
  string gives one empty piece.
\<close>

fun split_js :: "char \<Rightarrow> string \<Rightarrow> string list" where
  "split_js sep [] = [[]]"
| "split_js sep (c # cs) =
     (if c = sep then [] # split_js sep cs
      else (case split_js sep cs of
              [] \<Rightarrow> [[c]]
            | p # ps \<Rightarrow> (c # p) # ps))"

subsection \<open>Number values\<close>

text \<open>
  What \<^verbatim>\<open>Number(string)\<close> returns is a double: \<^verbatim>\<open>NaN\<close>, an infinity (\<open>DInf True\<close> is the
  negative one) or a finite value, kept as \<open>DFin m k\<close> for \<open>m * 2^k\<close>. \<open>roundDouble neg n d\<close>
  is the double nearest to the fraction \<open>n / d\<close> (\<open>n \<ge> 0\<close>, \<open>d > 0\<close>), ties to even, with the
  sign \<open>neg\<close>: 53 significant bits, exponents down to \<open>-1022\<close> (below that the spacing stays
  \<open>2^-1074\<close>), and infinity from \<open>2^1024\<close> on. The sign of zero is not kept; nothing in the
  program depends on it.
\<close>

datatype jsdouble = DNaN | DInf bool | DFin int int

function log2floor :: "int \<Rightarrow> int" where
  "log2floor n = (if n < 2 then 0 else 1 + log2floor (n div 2))"
  by pat_completeness auto
termination
  by (relation "measure nat") auto

declare log2floor.simps [simp del]

text \<open>The largest \<open>b\<close> with \<open>2^b \<le> n / d\<close>, for positive \<open>n\<close> and \<open>d\<close>.\<close>

definition binExpFrom :: "int \<Rightarrow> int \<Rightarrow> int \<Rightarrow> int" where
  "binExpFrom g n d =
     (if (if 0 \<le> g then 2 ^ nat g * d \<le> n else d \<le> 2 ^ nat (- g) * n) then g else g - 1)"

definition binExp :: "int \<Rightarrow> int \<Rightarrow> int" where
  "binExp n d = binExpFrom (log2floor n - log2floor d) n d"

text \<open>
  The steps of the rounding, last first: the overflow test on the mantissa \<open>m\<close> and the
  exponent \<open>k\<close>; a mantissa that was rounded up to \<open>2^53\<close> is written as \<open>2^52\<close> with the
  next exponent; the choice between the quotient \<open>q\<close> and its successor from the remainder
  \<open>r\<close> of the division by \<open>d\<close>; the division; the scaling of the fraction by \<open>2^sh\<close>, so
  that its integer part has 53 bits (fewer below \<open>2^-1022\<close>).
\<close>

definition roundOverflow :: "bool \<Rightarrow> int \<Rightarrow> int \<Rightarrow> jsdouble" where
  "roundOverflow neg m k =
     (if 971 \<le> k then (if 2 ^ 1024 \<le> m * 2 ^ nat k then DInf neg
                        else DFin (if neg then - m else m) k)
      else DFin (if neg then - m else m) k)"

definition roundFinish :: "bool \<Rightarrow> int \<Rightarrow> int \<Rightarrow> jsdouble" where
  "roundFinish neg m k =
     (if m = 2 ^ 53 then roundOverflow neg (2 ^ 52) (k + 1) else roundOverflow neg m k)"

definition roundPick :: "bool \<Rightarrow> int \<Rightarrow> int \<Rightarrow> int \<Rightarrow> int \<Rightarrow> jsdouble" where
  "roundPick neg q r d k =
     roundFinish neg (if d < 2 * r \<or> (2 * r = d \<and> odd q) then q + 1 else q) k"

definition roundDivide :: "bool \<Rightarrow> int \<Rightarrow> int \<Rightarrow> int \<Rightarrow> jsdouble" where
  "roundDivide neg n d k = roundPick neg (n div d) (n mod d) d k"

definition roundScaled :: "bool \<Rightarrow> int \<Rightarrow> int \<Rightarrow> int \<Rightarrow> jsdouble" where
  "roundScaled neg n d sh =
     (if 0 \<le> sh then roundDivide neg (n * 2 ^ nat sh) d (- sh)
      else roundDivide neg n (d * 2 ^ nat (- sh)) (- sh))"

definition roundDouble :: "bool \<Rightarrow> int \<Rightarrow> int \<Rightarrow> jsdouble" where
  "roundDouble neg n d =
     (if n = 0 then DFin 0 0 else roundScaled neg n d (52 - max (binExp n d) (- 1022)))"

definition jsOne :: jsdouble where
  "jsOne = roundDouble False 1 1"

fun isFinite :: "jsdouble \<Rightarrow> bool" where
  "isFinite (DFin m k) = True"
| "isFinite v = False"

text \<open>\<^verbatim>\<open>x - 1\<close> on doubles: the exact difference, rounded.\<close>

definition roundSigned :: "int \<Rightarrow> int \<Rightarrow> jsdouble" where
  "roundSigned n d = roundDouble (n < 0) \<bar>n\<bar> d"

fun minusOne :: "jsdouble \<Rightarrow> jsdouble" where
  "minusOne (DFin m k) =
     (if 0 \<le> k then roundSigned (m * 2 ^ nat k - 1) 1
      else roundSigned (m - 2 ^ nat (- k)) (2 ^ nat (- k)))"
| "minusOne v = v"

text \<open>\<^verbatim>\<open>ToIntegerOrInfinity\<close> of a finite double: the fraction is cut off, towards zero.\<close>

definition truncDouble :: "int \<Rightarrow> int \<Rightarrow> int" where
  "truncDouble m k = (if 0 \<le> k then m * 2 ^ nat k else sgn m * (\<bar>m\<bar> div 2 ^ nat (- k)))"

subsection \<open>\<^verbatim>\<open>Number(string)\<close>\<close>

text \<open>
  \<^verbatim>\<open>Number\<close> trims white space and reads the empty string as \<open>0\<close>. What is left must be a
  numeric literal of ECMAScript's \<^verbatim>\<open>StringNumericLiteral\<close> grammar, or the result is \<^verbatim>\<open>NaN\<close>:
  a binary, octal or hexadecimal integer (\<^verbatim>\<open>0b\<close>, \<^verbatim>\<open>0o\<close>, \<^verbatim>\<open>0x\<close>, either case, no sign), or an
  optional sign followed by \<^verbatim>\<open>Infinity\<close> or by a decimal literal, which is digits with an
  optional fraction, or a fraction alone, each with an optional exponent. The value of
  the literal is rounded to the nearest double.
\<close>

text \<open>
  The white space that \<^verbatim>\<open>Number\<close> and \<^verbatim>\<open>trim\<close> strip is ECMAScript's \<^verbatim>\<open>WhiteSpace\<close> and
  \<^verbatim>\<open>LineTerminator\<close>: TAB, LF, VT, FF, CR, SP, then U+00A0, U+1680, U+2000 to U+200A, U+2028,
  U+2029, U+202F, U+205F, U+3000 and U+FEFF, here as their UTF-8 bytes.
\<close>

definition whiteSpace :: "string list" where
  "whiteSpace =
     [[CHR 0x09], [CHR 0x0A], [CHR 0x0B], [CHR 0x0C], [CHR 0x0D], [CHR 0x20],
      [CHR 0xC2, CHR 0xA0], [CHR 0xE1, CHR 0x9A, CHR 0x80],
      [CHR 0xE2, CHR 0x80, CHR 0x80], [CHR 0xE2, CHR 0x80, CHR 0x81],
      [CHR 0xE2, CHR 0x80, CHR 0x82], [CHR 0xE2, CHR 0x80, CHR 0x83],
      [CHR 0xE2, CHR 0x80, CHR 0x84], [CHR 0xE2, CHR 0x80, CHR 0x85],
      [CHR 0xE2, CHR 0x80, CHR 0x86], [CHR 0xE2, CHR 0x80, CHR 0x87],
      [CHR 0xE2, CHR 0x80, CHR 0x88], [CHR 0xE2, CHR 0x80, CHR 0x89],
      [CHR 0xE2, CHR 0x80, CHR 0x8A], [CHR 0xE2, CHR 0x80, CHR 0xA8],
      [CHR 0xE2, CHR 0x80, CHR 0xA9], [CHR 0xE2, CHR 0x80, CHR 0xAF],
      [CHR 0xE2, CHR 0x81, CHR 0x9F], [CHR 0xE3, CHR 0x80, CHR 0x80],
      [CHR 0xEF, CHR 0xBB, CHR 0xBF]]"

text \<open>The rest of a string behind a given prefix, and behind the first of several that fits.\<close>

fun dropPrefix :: "string \<Rightarrow> string \<Rightarrow> string option" where
  "dropPrefix [] s = Some s"
| "dropPrefix (a # p) [] = None"
| "dropPrefix (a # p) (b # s) = (if a = b then dropPrefix p s else None)"

fun dropOneOf :: "string list \<Rightarrow> string \<Rightarrow> string option" where
  "dropOneOf [] s = None"
| "dropOneOf (p # ps) s =
     (case dropPrefix p s of
        Some r \<Rightarrow> Some r
      | None \<Rightarrow> dropOneOf ps s)"

text \<open>Stripping, from the front, every leading occurrence of the given sequences.\<close>

function stripLeading :: "string list \<Rightarrow> string \<Rightarrow> string" where
  "stripLeading ps s =
     (case dropOneOf ps s of
        None \<Rightarrow> s
      | Some r \<Rightarrow> if length r < length s then stripLeading ps r else s)"
  by pat_completeness auto
termination
  by (relation "measure (\<lambda>(ps, s). length s)") auto

declare stripLeading.simps [simp del]

definition trim_js :: "string \<Rightarrow> string" where
  "trim_js s = rev (stripLeading (map rev whiteSpace) (rev (stripLeading whiteSpace s)))"

definition digitVal :: "char \<Rightarrow> int option" where
  "digitVal c = map_of (zip ''0123456789'' [0, 1, 2, 3, 4, 5, 6, 7, 8, 9]) c"

definition isDigit :: "char \<Rightarrow> bool" where
  "isDigit c = (digitVal c \<noteq> None)"

definition hexVal :: "char \<Rightarrow> int option" where
  "hexVal c =
     map_of (zip ''0123456789abcdefABCDEF''
       [0, 1, 2, 3, 4, 5, 6, 7, 8, 9, 10, 11, 12, 13, 14, 15, 10, 11, 12, 13, 14, 15]) c"

definition octVal :: "char \<Rightarrow> int option" where
  "octVal c = map_of (zip ''01234567'' [0, 1, 2, 3, 4, 5, 6, 7]) c"

definition binVal :: "char \<Rightarrow> int option" where
  "binVal c = map_of (zip ''01'' [0, 1]) c"

text \<open>The value of a run of digits in a base, read left to right; none when a character is no digit.\<close>

fun radixVal :: "int \<Rightarrow> (char \<Rightarrow> int option) \<Rightarrow> int \<Rightarrow> string \<Rightarrow> int option" where
  "radixVal base dv acc [] = Some acc"
| "radixVal base dv acc (c # cs) =
     (case dv c of
        None \<Rightarrow> None
      | Some v \<Rightarrow> radixVal base dv (acc * base + v) cs)"

definition radixLiteral :: "int \<Rightarrow> (char \<Rightarrow> int option) \<Rightarrow> string \<Rightarrow> jsdouble" where
  "radixLiteral base dv ds =
     (if ds = [] then DNaN
      else (case radixVal base dv 0 ds of
              None \<Rightarrow> DNaN
            | Some a \<Rightarrow> roundDouble False a 1))"

text \<open>\<^verbatim>\<open>0x...\<close>, \<^verbatim>\<open>0o...\<close>, \<^verbatim>\<open>0b...\<close>; none when the string has no such prefix.\<close>

fun nonDecimalLiteral :: "string \<Rightarrow> jsdouble option" where
  "nonDecimalLiteral (z # x # ds) =
     (if z \<noteq> CHR ''0'' then None
      else if x = CHR ''x'' \<or> x = CHR ''X'' then Some (radixLiteral 16 hexVal ds)
      else if x = CHR ''o'' \<or> x = CHR ''O'' then Some (radixLiteral 8 octVal ds)
      else if x = CHR ''b'' \<or> x = CHR ''B'' then Some (radixLiteral 2 binVal ds)
      else None)"
| "nonDecimalLiteral s = None"

text \<open>A non-empty run of decimal digits.\<close>

definition decimalDigits :: "string \<Rightarrow> int option" where
  "decimalDigits s = (if s = [] then None else radixVal 10 digitVal 0 s)"

text \<open>The exponent part: absent (\<open>0\<close>), or \<^verbatim>\<open>e\<close> or \<^verbatim>\<open>E\<close> and a signed integer.\<close>

fun exponentPart :: "string \<Rightarrow> int option" where
  "exponentPart [] = Some 0"
| "exponentPart (c # cs) =
     (if c = CHR ''e'' \<or> c = CHR ''E'' then
        (case cs of
           [] \<Rightarrow> None
         | s # ds \<Rightarrow>
             if s = CHR ''-'' then map_option uminus (decimalDigits ds)
             else if s = CHR ''+'' then decimalDigits ds
             else decimalDigits cs)
      else None)"

text \<open>
  An unsigned decimal literal: \<^verbatim>\<open>Infinity\<close>, or integer digits, an optional point with
  fraction digits, and an optional exponent; there must be a digit before the exponent.
\<close>

definition decimalValue :: "bool \<Rightarrow> int \<Rightarrow> int \<Rightarrow> jsdouble" where
  "decimalValue neg a e =
     (if 0 \<le> e then roundDouble neg (a * 10 ^ nat e) 1 else roundDouble neg a (10 ^ nat (- e)))"

definition decimalParts :: "bool \<Rightarrow> string \<Rightarrow> string \<Rightarrow> string \<Rightarrow> jsdouble" where
  "decimalParts neg ip fp r2 =
     (if ip = [] \<and> fp = [] then DNaN
      else (case exponentPart r2 of
              None \<Rightarrow> DNaN
            | Some ex \<Rightarrow>
                (case radixVal 10 digitVal 0 (ip @ fp) of
                   None \<Rightarrow> DNaN
                 | Some a \<Rightarrow> decimalValue neg a (ex - int (length fp)))))"

fun afterInteger :: "bool \<Rightarrow> string \<Rightarrow> string \<Rightarrow> jsdouble" where
  "afterInteger neg ip [] = decimalParts neg ip [] []"
| "afterInteger neg ip (c # cs) =
     (if c = CHR ''.'' then decimalParts neg ip (takeWhile isDigit cs) (dropWhile isDigit cs)
      else decimalParts neg ip [] (c # cs))"

definition strUnsignedDecimalLiteral :: "bool \<Rightarrow> string \<Rightarrow> jsdouble" where
  "strUnsignedDecimalLiteral neg s =
     (if s = ''Infinity'' then DInf neg
      else afterInteger neg (takeWhile isDigit s) (dropWhile isDigit s))"

definition Number_js :: "string \<Rightarrow> jsdouble" where
  "Number_js s =
     (case trim_js s of
        [] \<Rightarrow> DFin 0 0
      | c # cs \<Rightarrow>
          (case nonDecimalLiteral (c # cs) of
             Some v \<Rightarrow> v
           | None \<Rightarrow>
               if c = CHR ''-'' then strUnsignedDecimalLiteral True cs
               else if c = CHR ''+'' then strUnsignedDecimalLiteral False cs
               else strUnsignedDecimalLiteral False (c # cs)))"

subsection \<open>\<^verbatim>\<open>new Date(year, monthIndex, day, hours, minutes, 0, 0)\<close>\<close>

text \<open>
  The constructor follows ECMAScript: an argument that is \<^verbatim>\<open>NaN\<close> or infinite gives an
  invalid date; the others are cut to integers; a year from 0 to 99 means 1900 + year;
  months and days overflow into the next year or month (\<^verbatim>\<open>MakeDay\<close>); the result is clipped
  to \<open>\<plusminus>8.64 * 10^15\<close> ms (\<^verbatim>\<open>TimeClip\<close>). A \<^verbatim>\<open>Date\<close> is modelled by its time value, so
  \<^verbatim>\<open>getTime()\<close> is the identity. The arguments are local wall-clock time; the model takes
  the local time zone to be UTC.

  The sums and products of the constructor are those of doubles. Their operands are
  integers, so each result is the exact integer rounded to a double (\<open>flInt\<close>), which is
  the integer itself below \<open>2^53\<close>; \<open>None\<close> stands for a result that is not finite.
\<close>

definition flInt :: "int \<Rightarrow> int option" where
  "flInt n =
     (if \<bar>n\<bar> < 2 ^ 53 then Some n
      else (case roundSigned n 1 of
              DFin m k \<Rightarrow> Some (truncDouble m k)
            | DInf neg \<Rightarrow> None
            | DNaN \<Rightarrow> None))"

fun addD :: "int option \<Rightarrow> int option \<Rightarrow> int option" where
  "addD (Some a) (Some b) = flInt (a + b)"
| "addD _ _ = None"

definition mulD :: "int \<Rightarrow> int \<Rightarrow> int option" where
  "mulD a c = flInt (a * c)"

text \<open>Days from 1970-01-01 to the first day of month \<open>m\<close> (1 to 12) of year \<open>y\<close>.\<close>

definition daysFromCivil :: "int \<Rightarrow> int \<Rightarrow> int" where
  "daysFromCivil y m =
     (let y' = (if m \<le> 2 then y - 1 else y);
          era = y' div 400;
          yoe = y' - era * 400;
          mp = (if m > 2 then m - 3 else m + 9);
          doy = (153 * mp + 2) div 5;
          doe = yoe * 365 + yoe div 4 - yoe div 100 + doy
      in era * 146097 + doe - 719468)"

text \<open>
  \<^verbatim>\<open>MakeDay\<close>: the year is \<open>year + floor(month / 12)\<close>, the month \<open>month mod 12\<close>, and the
  result the day number of the first of that month, plus \<open>dt - 1\<close>.
\<close>

definition MakeDay :: "int \<Rightarrow> int \<Rightarrow> int \<Rightarrow> int option" where
  "MakeDay year month dt =
     (case addD (Some year) (flInt (month div 12)) of
        None \<Rightarrow> None
      | Some ym \<Rightarrow>
          addD (addD (flInt (daysFromCivil ym (month mod 12 + 1))) (Some dt)) (Some (- 1)))"

definition MakeTime :: "int \<Rightarrow> int \<Rightarrow> int \<Rightarrow> int \<Rightarrow> int option" where
  "MakeTime hour minute sec ms =
     addD (addD (addD (mulD hour 3600000) (mulD minute 60000)) (mulD sec 1000)) (Some ms)"

fun MakeDate :: "int option \<Rightarrow> int option \<Rightarrow> int option" where
  "MakeDate (Some day) (Some tm) = addD (mulD day 86400000) (Some tm)"
| "MakeDate _ _ = None"

fun TimeClip :: "int option \<Rightarrow> jsnum" where
  "TimeClip (Some t) = (if \<bar>t\<bar> > 8640000000000000 then NaN else Num t)"
| "TimeClip None = NaN"

fun Date_new :: "jsdouble \<Rightarrow> jsdouble \<Rightarrow> jsdouble \<Rightarrow> jsdouble \<Rightarrow> jsdouble \<Rightarrow> jsnum" where
  "Date_new (DFin y yk) (DFin m mk) (DFin dt dk) (DFin h hk) (DFin mi mik) =
     (let yi = truncDouble y yk;
          yr = (if 0 \<le> yi \<and> yi \<le> 99 then 1900 + yi else yi)
      in TimeClip (MakeDate (MakeDay yr (truncDouble m mk) (truncDouble dt dk))
           (MakeTime (truncDouble h hk) (truncDouble mi mik) 0 0)))"
| "Date_new _ _ _ _ _ = NaN"

section \<open>Time utilities of the program\<close>

text \<open>
  \<^verbatim>\<open>const [hours = "00", minutes = "00"] = time.split(":")\<close>: a default applies only where
  the array has no element at that index. \<^verbatim>\<open>month ?? 1\<close> and \<^verbatim>\<open>day ?? 1\<close> replace only
  \<^verbatim>\<open>undefined\<close>, again an absent element; \<^verbatim>\<open>Number(undefined)\<close> is \<^verbatim>\<open>NaN\<close>.
\<close>

fun elem0 :: "'a \<Rightarrow> 'a list \<Rightarrow> 'a" where
  "elem0 d (x # xs) = x"
| "elem0 d [] = d"

fun elem1 :: "'a \<Rightarrow> 'a list \<Rightarrow> 'a" where
  "elem1 d (x # y # xs) = y"
| "elem1 d xs = d"

fun elem2 :: "'a \<Rightarrow> 'a list \<Rightarrow> 'a" where
  "elem2 d (x # y # z # xs) = z"
| "elem2 d xs = d"

definition combineDateTime :: "string \<Rightarrow> string \<Rightarrow> jsnum" where
  "combineDateTime date time =
     (let tparts = split_js CHR '':'' time;
          hours = elem0 ''00'' tparts;
          minutes = elem1 ''00'' tparts;
          dparts = map Number_js (split_js CHR ''-'' date);
          year = elem0 DNaN dparts;
          month = elem1 jsOne dparts;
          day = elem2 jsOne dparts
      in Date_new year (minusOne month) day (Number_js hours) (Number_js minutes))"

text \<open>
  \<^verbatim>\<open>normalizeTimeValue\<close> pads the hour and the minute to two characters; the empty string
  stays empty. (The length is counted in bytes, which for the ASCII strings of a time
  field is the number of characters.)
\<close>

definition padStart2 :: "string \<Rightarrow> string" where
  "padStart2 s = replicate (2 - length s) CHR ''0'' @ s"

definition normalizeTimeValue :: "string \<Rightarrow> string" where
  "normalizeTimeValue v =
     (if v = [] then []
      else (let parts = split_js CHR '':'' v;
                hours = elem0 ''00'' parts;
                minutes = elem1 ''00'' parts
            in padStart2 hours @ '':'' @ padStart2 minutes))"

section \<open>Data model\<close>

record task =
  task_id :: string
  title :: string
  description :: string
  date :: string
  time :: string
  remindBefore :: int
  completed :: bool
  notified :: bool

record alert =
  alert_id :: string
  taskId :: string
  message :: string
  scheduledAt :: int

text \<open>
  \<^verbatim>\<open>scheduledAt\<close> is \<^verbatim>\<open>scheduled.toISOString()\<close>: the ISO rendering of a valid time value,
  kept here as the time value itself. On an invalid date \<^verbatim>\<open>toISOString\<close> throws a
  \<^verbatim>\<open>RangeError\<close>.
\<close>

datatype error = RangeError

text \<open>
  What the environment supplies: \<^verbatim>\<open>createId()\<close> is random, so the model takes the value of
  its \<open>n\<close>-th call from the environment; \<^verbatim>\<open>formatTimeLabel\<close> is the locale's rendering of a
  time of day.
\<close>

record env =
  createId :: "nat \<Rightarrow> string"
  formatTimeLabel :: "jsnum \<Rightarrow> string"

text \<open>
  The alert channel: the \<^verbatim>\<open>alerts\<close> state of the component, the number of identifiers drawn
  for alerts so far, and the record \<open>emitted\<close> of the calls of \<^verbatim>\<open>triggerNotification\<close>, in
  order: each call requests the chime (\<^verbatim>\<open>playTone()\<close>) and, when permitted, a desktop
  notification for its task, whether or not it adds an alert to the list.
\<close>

record channel =
  alerts :: "alert list"
  emitted :: "task list"
  idCalls :: nat

text \<open>
  \<^verbatim>\<open>Partial<Omit<Task, "id">>\<close>: each field is present (\<open>Some\<close>) or absent (\<open>None\<close>).
\<close>

record updates =
  u_title :: "string option"
  u_description :: "string option"
  u_date :: "string option"
  u_time :: "string option"
  u_remindBefore :: "int option"
  u_completed :: "bool option"
  u_notified :: "bool option"

record formState =
  f_title :: string
  f_description :: string
  f_date :: string
  f_time :: string
  f_remindBefore :: int

section \<open>Task store\<close>

definition scheduledTime :: "task \<Rightarrow> jsnum" where
  "scheduledTime t = combineDateTime (date t) (time t)"

text \<open>
  \<^verbatim>\<open>[...data].sort((a, b) => combineDateTime(a.date, a.time).getTime() -
  combineDateTime(b.date, b.time).getTime())\<close>. \<^verbatim>\<open>Array.prototype.sort\<close> is stable and moves
  \<open>a\<close> behind \<open>b\<close> only where the comparator is positive; a comparator value \<^verbatim>\<open>NaN\<close> counts
  as \<open>0\<close>. For a consistent comparator every stable sort gives the same list; the model is
  the stable insertion sort. (With \<^verbatim>\<open>NaN\<close> instants the comparator is not consistent and
  ECMAScript leaves the order to the implementation.)
\<close>

definition compareTasks :: "task \<Rightarrow> task \<Rightarrow> jsnum" where
  "compareTasks a b = js_sub (scheduledTime a) (scheduledTime b)"

fun insertTask :: "task \<Rightarrow> task list \<Rightarrow> task list" where
  "insertTask x [] = [x]"
| "insertTask x (y # ys) =
     (if js_gt (compareTasks x y) (Num 0) then y # insertTask x ys else x # y # ys)"

definition sortTasks :: "task list \<Rightarrow> task list" where
  "sortTasks data = foldr insertTask data []"

definition saveTasks :: "task list \<Rightarrow> task list" where
  "saveTasks draft = sortTasks draft"

text \<open>
  \<^verbatim>\<open>handleFormSubmit\<close>: nothing happens unless title, date and time are non-empty; the new
  task takes the identifier of the \<open>n\<close>-th call of \<^verbatim>\<open>createId\<close>.
\<close>

definition newTask :: "env \<Rightarrow> nat \<Rightarrow> formState \<Rightarrow> task" where
  "newTask e n form =
     \<lparr>task_id = createId e n,
      title = trim_js (f_title form),
      description = trim_js (f_description form),
      date = f_date form,
      time = normalizeTimeValue (f_time form),
      remindBefore = f_remindBefore form,
      completed = False,
      notified = False\<rparr>"

definition handleFormSubmit :: "env \<Rightarrow> nat \<Rightarrow> formState \<Rightarrow> task list \<Rightarrow> task list" where
  "handleFormSubmit e n form prev =
     (if f_title form = [] \<or> f_date form = [] \<or> f_time form = [] then prev
      else sortTasks (prev @ [newTask e n form]))"

text \<open>
  \<^verbatim>\<open>{ ...task, ...updates, notified: updates.time || updates.date ? false : task.notified }\<close>:
  every present field of the update replaces the task's, and \<^verbatim>\<open>notified\<close> is then set from
  the truthiness of \<^verbatim>\<open>updates.time\<close> and \<^verbatim>\<open>updates.date\<close>. A string is truthy when it is
  not empty; an absent field is \<^verbatim>\<open>undefined\<close>, which is falsy.
\<close>

fun truthy :: "string option \<Rightarrow> bool" where
  "truthy None = False"
| "truthy (Some s) = (s \<noteq> [])"

fun orElse :: "'a option \<Rightarrow> 'a \<Rightarrow> 'a" where
  "orElse None d = d"
| "orElse (Some v) d = v"

definition mergeUpdates :: "task \<Rightarrow> updates \<Rightarrow> task" where
  "mergeUpdates t u =
     \<lparr>task_id = task_id t,
      title = orElse (u_title u) (title t),
      description = orElse (u_description u) (description t),
      date = orElse (u_date u) (date t),
      time = orElse (u_time u) (time t),
      remindBefore = orElse (u_remindBefore u) (remindBefore t),
      completed = orElse (u_completed u) (completed t),
      notified = (if truthy (u_time u) \<or> truthy (u_date u) then False else notified t)\<rparr>"

definition handleTaskUpdate :: "string \<Rightarrow> updates \<Rightarrow> task list \<Rightarrow> task list" where
  "handleTaskUpdate tid u prev =
     sortTasks (map (\<lambda>t. if task_id t = tid then mergeUpdates t u else t) prev)"

definition handleTaskCompletion :: "string \<Rightarrow> bool \<Rightarrow> task list \<Rightarrow> task list" where
  "handleTaskCompletion tid c prev =
     sortTasks (map (\<lambda>t. if task_id t = tid then t\<lparr>completed := c\<rparr> else t) prev)"

definition handleTaskRemoval :: "string \<Rightarrow> task list \<Rightarrow> task list" where
  "handleTaskRemoval tid prev = filter (\<lambda>t. task_id t \<noteq> tid) prev"

text \<open>The day template: title, time, description, lead time.\<close>

definition templateBlueprint :: "(string \<times> string \<times> string \<times> int) list" where
  "templateBlueprint =
     [(''Morning Stretch'', ''07:00'', ''Loosen up with a 10 minute stretch routine.'', 10),
      (''Focus Block #1'', ''09:00'', ''Deep work session on priority project.'', 15),
      (''Lunch Break'', ''12:30'', ''Step away from the desk and recharge.'', 10),
      (''Afternoon Check-in'', ''15:00'', ''Review progress and adjust the plan.'', 10),
      (''Wrap-up & Plan Tomorrow'', ''18:00'', ''Log wins and prep tomorrow's priorities.'', 15)]"

text \<open>
  \<^verbatim>\<open>templateBlueprint.map((entry) => ({ id: createId(), ..., date, ... }))\<close>: the \<open>k\<close>-th
  entry takes the identifier of call \<open>n + k\<close>.
\<close>

fun blueprintFrom :: "env \<Rightarrow> nat \<Rightarrow> string \<Rightarrow> (string \<times> string \<times> string \<times> int) list \<Rightarrow> task list" where
  "blueprintFrom e n d [] = []"
| "blueprintFrom e n d ((ttl, tm, descr, rb) # entries) =
     \<lparr>task_id = createId e n, title = ttl, description = descr, date = d, time = tm,
      remindBefore = rb, completed = False, notified = False\<rparr>
     # blueprintFrom e (Suc n) d entries"

text \<open>
  The state update of \<^verbatim>\<open>resetTemplateForDay\<close>:
  \<^verbatim>\<open>prev => sortTasks([...prev.filter((task) => task.date !== date), ...blueprint])\<close>.
\<close>

definition replaceForDate :: "string \<Rightarrow> task list \<Rightarrow> task list \<Rightarrow> task list" where
  "replaceForDate d blueprint prev = sortTasks (filter (\<lambda>t. date t \<noteq> d) prev @ blueprint)"

definition resetTemplateForDay :: "env \<Rightarrow> nat \<Rightarrow> string \<Rightarrow> task list \<Rightarrow> task list" where
  "resetTemplateForDay e n d prev = replaceForDate d (blueprintFrom e n d templateBlueprint) prev"

section \<open>Alert channel\<close>

text \<open>The decimal rendering of an integer in a template string.\<close>

fun showNat :: "nat \<Rightarrow> string" where
  "showNat n =
     (if n < 10 then [''0123456789'' ! n]
      else showNat (n div 10) @ [''0123456789'' ! (n mod 10)])"

declare showNat.simps [simp del]

definition showInt :: "int \<Rightarrow> string" where
  "showInt i = (if i < 0 then CHR ''-'' # showNat (nat (- i)) else showNat (nat i))"

text \<open>
  \<^verbatim>\<open>triggerNotification\<close>: the message is built first; the alert is appended unless an alert
  of the list already has this \<^verbatim>\<open>taskId\<close>; the chime and the notification are requested in
  either case. Building the new alert calls \<^verbatim>\<open>toISOString\<close>, which throws on an invalid
  date.
\<close>

definition triggerNotification :: "env \<Rightarrow> task \<Rightarrow> channel \<Rightarrow> error + channel" where
  "triggerNotification e t ch =
     (let scheduled = combineDateTime (date t) (time t);
          msg = title t @ '' starts at '' @ formatTimeLabel e scheduled @
            (if remindBefore t \<noteq> 0
             then '' (notified '' @ showInt (remindBefore t) @ '' min early)'' else [])
      in if list_ex (\<lambda>item. taskId item = task_id t) (alerts ch)
         then Inr (ch\<lparr>emitted := emitted ch @ [t]\<rparr>)
         else (case scheduled of
                 NaN \<Rightarrow> Inl RangeError
               | Num ms \<Rightarrow>
                   Inr (ch\<lparr>alerts := alerts ch @
                              [\<lparr>alert_id = createId e (idCalls ch), taskId = task_id t,
                                message = msg, scheduledAt = ms\<rparr>],
                           emitted := emitted ch @ [t],
                           idCalls := Suc (idCalls ch)\<rparr>)))"

definition acknowledgeAlert :: "string \<Rightarrow> channel \<Rightarrow> channel" where
  "acknowledgeAlert alertId ch = ch\<lparr>alerts := filter (\<lambda>item. alert_id item \<noteq> alertId) (alerts ch)\<rparr>"

section \<open>Scheduling engine\<close>

text \<open>
  \<^verbatim>\<open>triggerTime = scheduled.getTime() - task.remindBefore * 60 * 1000\<close>, and the task is due
  when \<^verbatim>\<open>nowTime >= triggerTime\<close>.
\<close>

definition triggerTime :: "task \<Rightarrow> jsnum" where
  "triggerTime t = js_sub (scheduledTime t) (Num (remindBefore t * 60 * 1000))"

text \<open>
  The body of the interval callback: \<^verbatim>\<open>current.map(...)\<close> visits the tasks in order, calls
  \<^verbatim>\<open>triggerNotification\<close> for each task that is neither completed nor notified and is due,
  and marks it notified; \<open>touched\<close> records whether any task was marked.
\<close>

fun evaluate :: "env \<Rightarrow> int \<Rightarrow> task list \<Rightarrow> channel \<Rightarrow> error + (task list \<times> bool \<times> channel)" where
  "evaluate e nowTime [] ch = Inr ([], False, ch)"
| "evaluate e nowTime (t # rest) ch =
     (if completed t \<or> notified t then
        (case evaluate e nowTime rest ch of
           Inl err \<Rightarrow> Inl err
         | Inr (next, touched, ch') \<Rightarrow> Inr (t # next, touched, ch'))
      else if js_ge (Num nowTime) (triggerTime t) then
        (case triggerNotification e t ch of
           Inl err \<Rightarrow> Inl err
         | Inr ch1 \<Rightarrow>
             (case evaluate e nowTime rest ch1 of
                Inl err \<Rightarrow> Inl err
              | Inr (next, touched, ch') \<Rightarrow> Inr (t\<lparr>notified := True\<rparr> # next, True, ch')))
      else
        (case evaluate e nowTime rest ch of
           Inl err \<Rightarrow> Inl err
         | Inr (next, touched, ch') \<Rightarrow> Inr (t # next, touched, ch')))"

text \<open>\<^verbatim>\<open>return touched ? sortTasks(next) : current\<close>.\<close>

definition tick :: "env \<Rightarrow> int \<Rightarrow> task list \<times> channel \<Rightarrow> error + (task list \<times> channel)" where
  "tick e nowTime st =
     (case evaluate e nowTime (fst st) (snd st) of
        Inl err \<Rightarrow> Inl err
      | Inr (next, touched, ch') \<Rightarrow> Inr (if touched then sortTasks next else fst st, ch'))"

text \<open>
  Successive runs of the interval callback at the given times, with no other change of
  the state in between.
\<close>

fun runTicks :: "env \<Rightarrow> int list \<Rightarrow> task list \<times> channel \<Rightarrow> error + (task list \<times> channel)" where
  "runTicks e [] st = Inr st"
| "runTicks e (nowTime # later) st =
     (case tick e nowTime st of
        Inl err \<Rightarrow> Inl err
      | Inr st' \<Rightarrow> runTicks e later st')"

section \<open>Notions the properties are stated with\<close>

text \<open>A task whose date and time give a valid instant, and that instant in milliseconds.\<close>

definition validTask :: "task \<Rightarrow> bool" where
  "validTask t = (scheduledTime t \<noteq> NaN)"

fun msOf :: "jsnum \<Rightarrow> int" where
  "msOf (Num a) = a"
| "msOf NaN = 0"

definition startMs :: "task \<Rightarrow> int" where
  "startMs t = msOf (scheduledTime t)"

text \<open>
  Ascending order by start instant: no task stands before a task with a strictly earlier
  instant (the comparison of the program, false whenever an instant is \<^verbatim>\<open>NaN\<close>).
\<close>

definition ascending :: "task list \<Rightarrow> bool" where
  "ascending ts = sorted_wrt (\<lambda>a b. \<not> js_gt (scheduledTime a) (scheduledTime b)) ts"

text \<open>The tasks with start instant \<open>k\<close>, in the order they have in the list.\<close>

definition sameInstant :: "jsnum \<Rightarrow> task list \<Rightarrow> task list" where
  "sameInstant k ts = filter (\<lambda>t. scheduledTime t = k) ts"

text \<open>The condition under which the interval callback fires a task.\<close>

definition qualifies :: "int \<Rightarrow> task \<Rightarrow> bool" where
  "qualifies nowTime t = (\<not> completed t \<and> \<not> notified t \<and> js_ge (Num nowTime) (triggerTime t))"

text \<open>The alerts of the channel that point at a given task identifier.\<close>

definition alertsFor :: "string \<Rightarrow> channel \<Rightarrow> alert list" where
  "alertsFor i ch = filter (\<lambda>item. taskId item = i) (alerts ch)"

text \<open>At most one alert of the channel points at any one task.\<close>

definition oneAlertPerTask :: "channel \<Rightarrow> bool" where
  "oneAlertPerTask ch = distinct (map taskId (alerts ch))"

text \<open>What the interval callback returns for one task of the list.\<close>

definition marked :: "int \<Rightarrow> task \<Rightarrow> task" where
  "marked nowTime t = (if qualifies nowTime t then t\<lparr>notified := True\<rparr> else t)"

section \<open>Concrete data for the examples\<close>

text \<open>The initial state of the channel: \<^verbatim>\<open>useState<Alert[]>([])\<close>, nothing emitted yet.\<close>

definition emptyChannel :: channel where
  "emptyChannel = \<lparr>alerts = [], emitted = [], idCalls = 0\<rparr>"

definition exampleEnv :: env where
  "exampleEnv = \<lparr>createId = (\<lambda>n. replicate (Suc n) CHR ''k''), formatTimeLabel = (\<lambda>_. ''07:30'')\<rparr>"

definition exampleTask :: "string \<Rightarrow> string \<Rightarrow> string \<Rightarrow> int \<Rightarrow> bool \<Rightarrow> bool \<Rightarrow> task" where
  "exampleTask i d tm rb c n =
     \<lparr>task_id = i, title = ''Task'', description = [], date = d, time = tm,
      remindBefore = rb, completed = c, notified = n\<rparr>"

text \<open>An update that carries nothing.\<close>

definition noUpdates :: updates where
  "noUpdates = \<lparr>u_title = None, u_description = None, u_date = None, u_time = None,
     u_remindBefore = None, u_completed = None, u_notified = None\<rparr>"

definition exampleForm :: "string \<Rightarrow> string \<Rightarrow> string \<Rightarrow> formState" where
  "exampleForm ttl d tm =
     \<lparr>f_title = ttl, f_description = [], f_date = d, f_time = tm, f_remindBefore = 0\<rparr>"

section \<open>Sorting\<close>


lemma mset_insertTask: "mset (insertTask x ys) = add_mset x (mset ys)"
  by (induction ys) auto

lemma mset_sortTasks: "mset (sortTasks xs) = mset xs"
  by (induction xs) (auto simp: sortTasks_def mset_insertTask)

lemma set_sortTasks: "set (sortTasks xs) = set xs"
  by (metis mset_sortTasks set_mset_mset)

lemma insertTask_insort:
  "validTask x \<Longrightarrow> \<forall>t\<in>set ys. validTask t \<Longrightarrow> insertTask x ys = insort_key startMs x ys"
proof (induction ys)
  case Nil
  then show ?case by simp
next
  case (Cons y ys)
  obtain a where a: "scheduledTime x = Num a"
    using Cons.prems(1) by (cases "scheduledTime x") (auto simp: validTask_def)
  obtain b where b: "scheduledTime y = Num b"
    using Cons.prems(2) by (cases "scheduledTime y") (auto simp: validTask_def)
  show ?case using Cons a b
    by (auto simp: compareTasks_def startMs_def)
qed

lemma sortTasks_sort_key:
  "\<forall>t\<in>set xs. validTask t \<Longrightarrow> sortTasks xs = sort_key startMs xs"
proof (induction xs)
  case Nil
  then show ?case by (simp add: sortTasks_def)
next
  case (Cons x xs)
  have "sortTasks (x # xs) = insertTask x (sortTasks xs)" by (simp add: sortTasks_def)
  also have "\<dots> = insertTask x (sort_key startMs xs)" using Cons by simp
  also have "\<dots> = insort_key startMs x (sort_key startMs xs)"
    using Cons.prems by (intro insertTask_insort) auto
  finally show ?case by simp
qed

lemma ascending_iff_sorted:
  "\<forall>t\<in>set ts. validTask t \<Longrightarrow> ascending ts = sorted (map startMs ts)"
proof (induction ts)
  case Nil
  then show ?case by (simp add: ascending_def)
next
  case (Cons x xs)
  have "\<And>y. y \<in> set (x # xs) \<Longrightarrow> \<exists>b. scheduledTime y = Num b"
    using Cons.prems by (metis jsnum.exhaust validTask_def)
  then have k: "\<And>y. y \<in> set (x # xs) \<Longrightarrow> scheduledTime y = Num (startMs y)"
    by (fastforce simp: startMs_def)
  have "(\<forall>y\<in>set xs. \<not> js_gt (scheduledTime x) (scheduledTime y)) = (\<forall>y\<in>set xs. startMs x \<le> startMs y)"
    using k by (auto simp: not_less)
  then show ?case using Cons by (simp add: ascending_def)
qed

section \<open>The evaluation pass\<close>

lemma due_valid: "js_ge (Num nowTime) (triggerTime t) \<Longrightarrow> \<exists>ms. scheduledTime t = Num ms"
  by (cases "scheduledTime t") (auto simp: triggerTime_def)

lemma due_iff:
  "js_ge (Num nowTime) (triggerTime t) =
     (\<exists>ms. scheduledTime t = Num ms \<and> ms - remindBefore t * 60000 \<le> nowTime)"
  by (cases "scheduledTime t") (auto simp: triggerTime_def)

lemma list_ex_alertsFor: "list_ex (\<lambda>item. taskId item = i) (alerts ch) = (alertsFor i ch \<noteq> [])"
  by (auto simp: alertsFor_def list_ex_iff filter_empty_conv)

lemma trigger_Inr:
  "js_ge (Num nowTime) (triggerTime t) \<Longrightarrow> \<exists>ch1. triggerNotification e t ch = Inr ch1"
  by (drule due_valid) (auto simp: triggerNotification_def scheduledTime_def Let_def)

lemma trigger_emitted:
  "triggerNotification e t ch = Inr ch1 \<Longrightarrow> emitted ch1 = emitted ch @ [t]"
  by (auto simp: triggerNotification_def Let_def split: if_splits jsnum.splits)

lemma trigger_alerts:
  "triggerNotification e t ch = Inr ch1 \<Longrightarrow>
     (alertsFor (task_id t) ch \<noteq> [] \<and> alerts ch1 = alerts ch) \<or>
     (alertsFor (task_id t) ch = [] \<and> (\<exists>a. alerts ch1 = alerts ch @ [a] \<and> taskId a = task_id t))"
  by (auto simp: triggerNotification_def Let_def list_ex_alertsFor split: if_splits jsnum.splits)

lemma trigger_alertsFor_length:
  assumes "triggerNotification e t ch = Inr ch1"
  shows "length (alertsFor i ch1) =
           (if i = task_id t \<and> alertsFor i ch = [] then 1 else length (alertsFor i ch))"
  using trigger_alerts [OF assms] by (auto simp: alertsFor_def)

lemma evaluate_Cons:
  assumes "evaluate e nowTime (t # rest) ch = Inr (next, touched, ch')"
  shows "if qualifies nowTime t
         then \<exists>ch1 next' touched'. triggerNotification e t ch = Inr ch1 \<and>
                evaluate e nowTime rest ch1 = Inr (next', touched', ch') \<and>
                next = t\<lparr>notified := True\<rparr> # next' \<and> touched
         else \<exists>next'. evaluate e nowTime rest ch = Inr (next', touched, ch') \<and> next = t # next'"
  using assms by (auto simp: qualifies_def split: if_splits sum.splits)

lemma evaluate_total: "\<exists>r. evaluate e nowTime ts ch = Inr r"
proof (induction ts arbitrary: ch)
  case Nil
  show ?case by (rule exI [of _ "([], False, ch)"]) simp
next
  case (Cons t rest)
  show ?case
  proof (cases "qualifies nowTime t")
    case True
    then have "js_ge (Num nowTime) (triggerTime t)" by (simp add: qualifies_def)
    from trigger_Inr [OF this] obtain ch1 where c: "triggerNotification e t ch = Inr ch1"
      by blast
    obtain r where "evaluate e nowTime rest ch1 = Inr r" using Cons by blast
    with True c show ?thesis by (cases r) (auto simp: qualifies_def)
  next
    case False
    obtain r where "evaluate e nowTime rest ch = Inr r" using Cons by blast
    with False show ?thesis by (cases r) (auto simp: qualifies_def)
  qed
qed

lemma evaluate_result:
  "evaluate e nowTime ts ch = Inr (next, touched, ch') \<Longrightarrow>
     next = map (\<lambda>t. if qualifies nowTime t then t\<lparr>notified := True\<rparr> else t) ts \<and>
     touched = (\<exists>t\<in>set ts. qualifies nowTime t) \<and>
     emitted ch' = emitted ch @ filter (qualifies nowTime) ts"
proof (induction ts arbitrary: ch "next" touched)
  case Nil
  then show ?case by simp
next
  case (Cons t rest)
  show ?case
  proof (cases "qualifies nowTime t")
    case True
    with evaluate_Cons [OF Cons.prems] obtain ch1 next' touched' where
      c: "triggerNotification e t ch = Inr ch1"
        "evaluate e nowTime rest ch1 = Inr (next', touched', ch')"
        "next = t\<lparr>notified := True\<rparr> # next'" "touched"
      by auto
    from Cons.IH [OF c(2)] trigger_emitted [OF c(1)] c(3,4) True show ?thesis by auto
  next
    case False
    with evaluate_Cons [OF Cons.prems] obtain next' where
      c: "evaluate e nowTime rest ch = Inr (next', touched, ch')" "next = t # next'"
      by auto
    from Cons.IH [OF c(1)] c(2) False show ?thesis by auto
  qed
qed

lemma evaluate_alertsFor:
  "evaluate e nowTime ts ch = Inr (next, touched, ch') \<Longrightarrow>
     length (alertsFor i ch') =
       (if alertsFor i ch = [] \<and> (\<exists>t\<in>set ts. qualifies nowTime t \<and> task_id t = i) then 1
        else length (alertsFor i ch))"
proof (induction ts arbitrary: ch "next" touched)
  case Nil
  then show ?case by simp
next
  case (Cons t rest)
  show ?case
  proof (cases "qualifies nowTime t")
    case True
    with evaluate_Cons [OF Cons.prems] obtain ch1 next' touched' where
      c: "triggerNotification e t ch = Inr ch1"
        "evaluate e nowTime rest ch1 = Inr (next', touched', ch')"
      by auto
    from Cons.IH [OF c(2)] trigger_alertsFor_length [OF c(1), of i] True show ?thesis
      by (auto split: if_splits)
  next
    case False
    with evaluate_Cons [OF Cons.prems] obtain next' where
      c: "evaluate e nowTime rest ch = Inr (next', touched, ch')"
      by auto
    from Cons.IH [OF c(1)] False show ?thesis by auto
  qed
qed

lemma evaluate_alerts_prefix:
  "evaluate e nowTime ts ch = Inr (next, touched, ch') \<Longrightarrow> \<exists>new. alerts ch' = alerts ch @ new"
proof (induction ts arbitrary: ch "next" touched)
  case Nil
  then show ?case by simp
next
  case (Cons t rest)
  show ?case
  proof (cases "qualifies nowTime t")
    case True
    with evaluate_Cons [OF Cons.prems] obtain ch1 next' touched' where
      c: "triggerNotification e t ch = Inr ch1"
        "evaluate e nowTime rest ch1 = Inr (next', touched', ch')"
      by auto
    from Cons.IH [OF c(2)] trigger_alerts [OF c(1)] show ?thesis by auto
  next
    case False
    with evaluate_Cons [OF Cons.prems] obtain next' where
      c: "evaluate e nowTime rest ch = Inr (next', touched, ch')"
      by auto
    from Cons.IH [OF c(1)] show ?thesis by auto
  qed
qed

section \<open>The alert channel\<close>

lemma trigger_oneAlertPerTask:
  assumes "triggerNotification e t ch = Inr ch1" and "oneAlertPerTask ch"
  shows "oneAlertPerTask ch1"
proof -
  from trigger_alerts [OF assms(1)] show ?thesis
  proof
    assume "alertsFor (task_id t) ch \<noteq> [] \<and> alerts ch1 = alerts ch"
    with assms(2) show ?thesis by (simp add: oneAlertPerTask_def)
  next
    assume a: "alertsFor (task_id t) ch = [] \<and> (\<exists>a. alerts ch1 = alerts ch @ [a] \<and> taskId a = task_id t)"
    then have "task_id t \<notin> taskId ` set (alerts ch)"
      by (auto simp: alertsFor_def filter_empty_conv)
    with a assms(2) show ?thesis by (auto simp: oneAlertPerTask_def)
  qed
qed

lemma evaluate_oneAlertPerTask:
  "evaluate e nowTime ts ch = Inr (next, touched, ch') \<Longrightarrow> oneAlertPerTask ch \<Longrightarrow> oneAlertPerTask ch'"
proof (induction ts arbitrary: ch "next" touched)
  case Nil
  then show ?case by simp
next
  case (Cons t rest)
  show ?case
  proof (cases "qualifies nowTime t")
    case True
    with evaluate_Cons [OF Cons.prems(1)] obtain ch1 next' touched' where
      c: "triggerNotification e t ch = Inr ch1"
        "evaluate e nowTime rest ch1 = Inr (next', touched', ch')"
      by auto
    from Cons.IH [OF c(2)] trigger_oneAlertPerTask [OF c(1) Cons.prems(2)] show ?thesis .
  next
    case False
    with evaluate_Cons [OF Cons.prems(1)] obtain next' where
      c: "evaluate e nowTime rest ch = Inr (next', touched, ch')"
      by auto
    from Cons.IH [OF c(1) Cons.prems(2)] show ?thesis .
  qed
qed

lemma evaluate_total3:
  obtains "next" touched ch' where "evaluate e nowTime ts ch = Inr (next, touched, ch')"
proof -
  obtain r where "evaluate e nowTime ts ch = Inr r" using evaluate_total by blast
  then show ?thesis by (cases r) (auto intro: that)
qed

lemma tick_eq:
  "evaluate e nowTime ts ch = Inr (next, touched, ch') \<Longrightarrow>
     tick e nowTime (ts, ch) = Inr (if touched then sortTasks next else ts, ch')"
  by (simp add: tick_def)

lemma tick_Inr:
  assumes "tick e nowTime (ts, ch) = Inr (ts', ch')"
  shows "\<exists>next touched. evaluate e nowTime ts ch = Inr (next, touched, ch') \<and>
       ts' = (if touched then sortTasks next else ts)"
proof -
  obtain "next" touched c where ev: "evaluate e nowTime ts ch = Inr (next, touched, c)"
    by (rule evaluate_total3)
  from tick_eq [OF ev] assms have "ts' = (if touched then sortTasks next else ts)" "c = ch'"
    by simp_all
  with ev show ?thesis by blast
qed

lemma tick_total: "\<exists>ts' ch'. tick e nowTime (ts, ch) = Inr (ts', ch')"
proof -
  obtain "next" touched c where ev: "evaluate e nowTime ts ch = Inr (next, touched, c)"
    by (rule evaluate_total3)
  from tick_eq [OF ev] show ?thesis by blast
qed

lemma acknowledge_oneAlertPerTask:
  "oneAlertPerTask ch \<Longrightarrow> oneAlertPerTask (acknowledgeAlert alertId ch)"
  by (simp add: oneAlertPerTask_def acknowledgeAlert_def distinct_map_filter)

text \<open>
  Claim C5. The alert list never holds two alerts for the same task: the empty initial
  list has none; \<^verbatim>\<open>triggerNotification\<close> (emit) leaves the list as it is when an alert of the
  list already has the task's identifier, and otherwise appends exactly one alert for
  it; \<^verbatim>\<open>acknowledgeAlert\<close> only removes alerts; so emit, acknowledge and a whole engine tick
  preserve the invariant. (Emit returns normally whenever the engine calls it; its only
  failure is \<^verbatim>\<open>toISOString\<close> on a task with an invalid date, which leaves no new list.)
\<close>

theorem alert_channel_one_per_task:
  assumes "oneAlertPerTask ch"
  shows "oneAlertPerTask emptyChannel \<and>
         oneAlertPerTask (acknowledgeAlert alertId ch) \<and>
         (\<forall>ch1. triggerNotification e t ch = Inr ch1 \<longrightarrow>
            oneAlertPerTask ch1 \<and>
            (alertsFor (task_id t) ch \<noteq> [] \<longrightarrow> alerts ch1 = alerts ch) \<and>
            (alertsFor (task_id t) ch = [] \<longrightarrow>
               (\<exists>a. alerts ch1 = alerts ch @ [a] \<and> taskId a = task_id t))) \<and>
         (\<forall>ts' ch'. tick e nowTime (ts, ch) = Inr (ts', ch') \<longrightarrow> oneAlertPerTask ch')"
proof -
  have 1: "oneAlertPerTask emptyChannel"
    by (simp add: oneAlertPerTask_def emptyChannel_def)
  have 2: "oneAlertPerTask (acknowledgeAlert alertId ch)"
    using assms by (rule acknowledge_oneAlertPerTask)
  have 3: "\<forall>ch1. triggerNotification e t ch = Inr ch1 \<longrightarrow>
            oneAlertPerTask ch1 \<and>
            (alertsFor (task_id t) ch \<noteq> [] \<longrightarrow> alerts ch1 = alerts ch) \<and>
            (alertsFor (task_id t) ch = [] \<longrightarrow>
               (\<exists>a. alerts ch1 = alerts ch @ [a] \<and> taskId a = task_id t))"
    using trigger_oneAlertPerTask [OF _ assms] trigger_alerts by blast
  have 4: "\<forall>ts' ch'. tick e nowTime (ts, ch) = Inr (ts', ch') \<longrightarrow> oneAlertPerTask ch'"
    using evaluate_oneAlertPerTask [OF _ assms] tick_Inr by blast
  from 1 2 3 4 show ?thesis by blast
qed

theorem alert_channel_one_per_task_witness:
  "oneAlertPerTask
     \<lparr>alerts = [\<lparr>alert_id = ''k'', taskId = ''a'', message = ''m'', scheduledAt = 0\<rparr>],
      emitted = [], idCalls = 1\<rparr> \<and>
   oneAlertPerTask
     (acknowledgeAlert ''k''
        \<lparr>alerts = [\<lparr>alert_id = ''k'', taskId = ''a'', message = ''m'', scheduledAt = 0\<rparr>],
         emitted = [], idCalls = 1\<rparr>) \<and>
   triggerNotification exampleEnv (exampleTask ''b'' ''2024-01-02'' ''07:30'' 10 False False)
     \<lparr>alerts = [\<lparr>alert_id = ''k'', taskId = ''a'', message = ''m'', scheduledAt = 0\<rparr>],
      emitted = [], idCalls = 1\<rparr> =
   Inr \<lparr>alerts =
          [\<lparr>alert_id = ''k'', taskId = ''a'', message = ''m'', scheduledAt = 0\<rparr>,
           \<lparr>alert_id = ''kk'', taskId = ''b'',
             message = ''Task starts at 07:30 (notified 10 min early)'',
             scheduledAt = 1704180600000\<rparr>],
        emitted = [exampleTask ''b'' ''2024-01-02'' ''07:30'' 10 False False],
        idCalls = 2\<rparr> \<and>
   oneAlertPerTask
     \<lparr>alerts =
        [\<lparr>alert_id = ''k'', taskId = ''a'', message = ''m'', scheduledAt = 0\<rparr>,
         \<lparr>alert_id = ''kk'', taskId = ''b'',
           message = ''Task starts at 07:30 (notified 10 min early)'',
           scheduledAt = 1704180600000\<rparr>],
      emitted = [exampleTask ''b'' ''2024-01-02'' ''07:30'' 10 False False],
      idCalls = 2\<rparr>"
proof -
  let ?ch = "\<lparr>alerts = [\<lparr>alert_id = ''k'', taskId = ''a'', message = ''m'', scheduledAt = 0\<rparr>],
      emitted = [], idCalls = 1\<rparr>"
  let ?t = "exampleTask ''b'' ''2024-01-02'' ''07:30'' 10 False False"
  have h: "oneAlertPerTask ?ch" by (simp add: oneAlertPerTask_def)
  have tr: "triggerNotification exampleEnv ?t ?ch =
    Inr \<lparr>alerts =
          [\<lparr>alert_id = ''k'', taskId = ''a'', message = ''m'', scheduledAt = 0\<rparr>,
           \<lparr>alert_id = ''kk'', taskId = ''b'',
             message = ''Task starts at 07:30 (notified 10 min early)'',
             scheduledAt = 1704180600000\<rparr>],
        emitted = [?t], idCalls = 2\<rparr>"
    by code_simp
  from alert_channel_one_per_task [OF h, of "''k''" exampleEnv ?t] tr h
  show ?thesis by blast
qed

section \<open>The engine tick\<close>

lemma evaluate_marked:
  "evaluate e nowTime ts ch = Inr (next, touched, ch') \<Longrightarrow> next = map (marked nowTime) ts"
  by (drule evaluate_result) (simp add: marked_def)

lemma map_marked_id: "\<forall>t\<in>set ts. \<not> qualifies nowTime t \<Longrightarrow> map (marked nowTime) ts = ts"
  by (induction ts) (auto simp: marked_def)

lemma tick_tasks:
  assumes "tick e nowTime (ts, ch) = Inr (ts1, ch1)"
  shows "mset ts1 = mset (map (marked nowTime) ts)"
proof -
  from tick_Inr [OF assms] obtain "next" touched where
    ev: "evaluate e nowTime ts ch = Inr (next, touched, ch1)"
    and ts1: "ts1 = (if touched then sortTasks next else ts)" by blast
  from evaluate_result [OF ev] have tch: "touched = (\<exists>t\<in>set ts. qualifies nowTime t)" by simp
  show ?thesis
  proof (cases touched)
    case True
    with ts1 evaluate_marked [OF ev] show ?thesis by (simp add: mset_sortTasks)
  next
    case False
    with tch have "map (marked nowTime) ts = ts" by (intro map_marked_id) simp
    with False ts1 show ?thesis by simp
  qed
qed

lemma tick_emitted:
  assumes "tick e nowTime (ts, ch) = Inr (ts1, ch1)"
  shows "emitted ch1 = emitted ch @ filter (qualifies nowTime) ts"
proof -
  from tick_Inr [OF assms] obtain "next" touched where
    ev: "evaluate e nowTime ts ch = Inr (next, touched, ch1)" by blast
  from evaluate_result [OF ev] show ?thesis by simp
qed

lemma tick_alertsFor_length:
  assumes "tick e nowTime (ts, ch) = Inr (ts1, ch1)"
  shows "length (alertsFor i ch1) =
       (if alertsFor i ch = [] \<and> (\<exists>t\<in>set ts. qualifies nowTime t \<and> task_id t = i) then 1
        else length (alertsFor i ch))"
proof -
  from tick_Inr [OF assms] obtain "next" touched where
    ev: "evaluate e nowTime ts ch = Inr (next, touched, ch1)" by blast
  from evaluate_alertsFor [OF ev] show ?thesis .
qed

lemma tick_alerts_prefix:
  assumes "tick e nowTime (ts, ch) = Inr (ts1, ch1)"
  shows "\<exists>new. alerts ch1 = alerts ch @ new"
proof -
  from tick_Inr [OF assms] obtain "next" touched where
    ev: "evaluate e nowTime ts ch = Inr (next, touched, ch1)" by blast
  from evaluate_alerts_prefix [OF ev] show ?thesis .
qed

lemma tick_alertsFor_same:
  assumes "tick e nowTime (ts, ch) = Inr (ts1, ch1)"
    and "\<forall>t\<in>set ts. qualifies nowTime t \<longrightarrow> task_id t \<noteq> i"
  shows "alertsFor i ch1 = alertsFor i ch"
proof -
  from tick_alerts_prefix [OF assms(1)] obtain new where n: "alerts ch1 = alerts ch @ new" by blast
  from tick_alertsFor_length [OF assms(1), of i] assms(2)
  have "length (alertsFor i ch1) = length (alertsFor i ch)" by auto
  with n show ?thesis by (simp add: alertsFor_def)
qed

lemma tick_alertsFor_kept:
  assumes "tick e nowTime (ts, ch) = Inr (ts1, ch1)" and "alertsFor i ch \<noteq> []"
  shows "alertsFor i ch1 = alertsFor i ch"
proof -
  from tick_alerts_prefix [OF assms(1)] obtain new where n: "alerts ch1 = alerts ch @ new" by blast
  from tick_alertsFor_length [OF assms(1), of i] assms(2)
  have "length (alertsFor i ch1) = length (alertsFor i ch)" by auto
  with n show ?thesis by (simp add: alertsFor_def)
qed

lemma count_list_filter: "count_list (filter P xs) x = (if P x then count_list xs x else 0)"
  by (induction xs) auto

lemma count_list_distinct: "distinct xs \<Longrightarrow> x \<in> set xs \<Longrightarrow> count_list xs x = 1"
  by (induction xs) (auto simp: count_list_0_iff)

lemma tick_emitted_count:
  assumes "tick e nowTime (ts, ch) = Inr (ts1, ch1)"
  shows "count_list (emitted ch1) u =
           count_list (emitted ch) u + (if qualifies nowTime u then count_list ts u else 0)"
  using tick_emitted [OF assms] by (simp add: count_list_filter)

lemma distinct_ids_unique:
  "distinct (map task_id ts) \<Longrightarrow> t \<in> set ts \<Longrightarrow> u \<in> set ts \<Longrightarrow> task_id u = task_id t \<Longrightarrow> u = t"
  by (meson distinct_map inj_onD)

section \<open>Exactly-once firing\<close>

lemma qualifies_due:
  "qualifies nowTime t =
     (\<not> completed t \<and> \<not> notified t \<and>
      (\<exists>s. scheduledTime t = Num s \<and> s - remindBefore t * 60000 \<le> nowTime))"
  by (simp add: qualifies_def due_iff)

text \<open>
  Claim C1. A task that is neither completed nor notified and whose trigger instant
  (start minus lead time) has passed is fired by one tick exactly once: the tick calls
  \<^verbatim>\<open>triggerNotification\<close> for it once, the channel then holds exactly one alert with its
  identifier, and the task is in the new list with \<open>notified\<close> set. A second tick, at
  any time and with no edit in between, makes no call for that task and leaves its
  alerts as they are. Task identifiers are unique in the list, and the channel holds at
  most one alert for the task before the tick, as it always does.
\<close>

theorem exactly_once_firing:
  assumes "t \<in> set ts" and "distinct (map task_id ts)"
    and "\<not> completed t" and "\<not> notified t"
    and "scheduledTime t = Num s" and "s - remindBefore t * 60000 \<le> nowTime"
    and "length (alertsFor (task_id t) ch) \<le> 1"
  shows "\<exists>ts1 ch1. tick e nowTime (ts, ch) = Inr (ts1, ch1) \<and>
           count_list (emitted ch1) t = count_list (emitted ch) t + 1 \<and>
           length (alertsFor (task_id t) ch1) = 1 \<and>
           t\<lparr>notified := True\<rparr> \<in> set ts1 \<and>
           (\<forall>u\<in>set ts1. task_id u = task_id t \<longrightarrow> notified u) \<and>
           (\<forall>now2. \<exists>ts2 ch2. tick e now2 (ts1, ch1) = Inr (ts2, ch2) \<and>
              alertsFor (task_id t) ch2 = alertsFor (task_id t) ch1 \<and>
              (\<forall>u. task_id u = task_id t \<longrightarrow>
                 count_list (emitted ch2) u = count_list (emitted ch1) u))"
proof -
  obtain ts1 ch1 where tk: "tick e nowTime (ts, ch) = Inr (ts1, ch1)"
    using tick_total by blast
  have q: "qualifies nowTime t" using assms(3-6) by (simp add: qualifies_due)
  have dist: "distinct ts" using assms(2) by (simp add: distinct_map)
  have c1: "count_list (emitted ch1) t = count_list (emitted ch) t + 1"
    using tick_emitted_count [OF tk, of t] q count_list_distinct [OF dist assms(1)] by simp
  have c2: "length (alertsFor (task_id t) ch1) = 1"
    using tick_alertsFor_length [OF tk, of "task_id t"] assms(1,7) q
    by (auto split: if_splits simp: le_Suc_eq)
  have set1: "set ts1 = marked nowTime ` set ts"
    using tick_tasks [OF tk] by (metis mset_eq_setD set_map)
  have c3: "t\<lparr>notified := True\<rparr> \<in> set ts1"
  proof -
    have "marked nowTime t = t\<lparr>notified := True\<rparr>" using q by (simp add: marked_def)
    with assms(1) set1 show ?thesis by force
  qed
  have c4: "\<forall>u\<in>set ts1. task_id u = task_id t \<longrightarrow> notified u"
  proof (intro ballI impI)
    fix u assume u: "u \<in> set ts1" "task_id u = task_id t"
    from u(1) set1 obtain v where v: "v \<in> set ts" "u = marked nowTime v" by auto
    have "task_id (marked nowTime v) = task_id v" by (simp add: marked_def)
    with u(2) v have "task_id v = task_id t" by simp
    with distinct_ids_unique [OF assms(2) assms(1) v(1)] have "v = t" by simp
    with v(2) q show "notified u" by (simp add: marked_def)
  qed
  have c5: "\<exists>ts2 ch2. tick e now2 (ts1, ch1) = Inr (ts2, ch2) \<and>
              alertsFor (task_id t) ch2 = alertsFor (task_id t) ch1 \<and>
              (\<forall>u. task_id u = task_id t \<longrightarrow>
                 count_list (emitted ch2) u = count_list (emitted ch1) u)" for now2
  proof -
    obtain ts2 ch2 where tk2: "tick e now2 (ts1, ch1) = Inr (ts2, ch2)"
      using tick_total by blast
    have nq: "\<forall>u\<in>set ts1. qualifies now2 u \<longrightarrow> task_id u \<noteq> task_id t"
      using c4 by (auto simp: qualifies_def)
    have a: "alertsFor (task_id t) ch2 = alertsFor (task_id t) ch1"
      using tick_alertsFor_same [OF tk2 nq] .
    have b: "count_list (emitted ch2) u = count_list (emitted ch1) u" if "task_id u = task_id t" for u
    proof (cases "u \<in> set ts1 \<and> qualifies now2 u")
      case True
      with nq that show ?thesis by blast
    next
      case False
      then have "(if qualifies now2 u then count_list ts1 u else 0) = 0"
        by (auto simp: count_list_0_iff)
      with tick_emitted_count [OF tk2, of u] show ?thesis by simp
    qed
    from tk2 a b show ?thesis by blast
  qed
  from tk c1 c2 c3 c4 c5 show ?thesis by blast
qed

theorem exactly_once_firing_witness:
  "exampleTask ''a'' ''2024-01-02'' ''07:40'' 10 False False
     \<in> set [exampleTask ''a'' ''2024-01-02'' ''07:40'' 10 False False,
             exampleTask ''b'' ''2024-01-02'' ''09:00'' 15 False False] \<and>
   distinct (map task_id [exampleTask ''a'' ''2024-01-02'' ''07:40'' 10 False False,
                          exampleTask ''b'' ''2024-01-02'' ''09:00'' 15 False False]) \<and>
   \<not> completed (exampleTask ''a'' ''2024-01-02'' ''07:40'' 10 False False) \<and>
   \<not> notified (exampleTask ''a'' ''2024-01-02'' ''07:40'' 10 False False) \<and>
   scheduledTime (exampleTask ''a'' ''2024-01-02'' ''07:40'' 10 False False) = Num 1704181200000 \<and>
   (1704181200000 :: int) - remindBefore (exampleTask ''a'' ''2024-01-02'' ''07:40'' 10 False False) * 60000
     \<le> 1704180600000 \<and>
   length (alertsFor (task_id (exampleTask ''a'' ''2024-01-02'' ''07:40'' 10 False False)) emptyChannel) \<le> 1 \<and>
   (\<exists>ts1 ch1.
      tick exampleEnv 1704180600000
        ([exampleTask ''a'' ''2024-01-02'' ''07:40'' 10 False False,
          exampleTask ''b'' ''2024-01-02'' ''09:00'' 15 False False], emptyChannel) = Inr (ts1, ch1) \<and>
      count_list (emitted ch1) (exampleTask ''a'' ''2024-01-02'' ''07:40'' 10 False False) = 1 \<and>
      length (alertsFor ''a'' ch1) = 1 \<and>
      exampleTask ''a'' ''2024-01-02'' ''07:40'' 10 False True \<in> set ts1 \<and>
      (\<exists>ts2 ch2. tick exampleEnv 1704180630000 (ts1, ch1) = Inr (ts2, ch2) \<and>
         alertsFor ''a'' ch2 = alertsFor ''a'' ch1 \<and>
         count_list (emitted ch2) (exampleTask ''a'' ''2024-01-02'' ''07:40'' 10 False True) =
           count_list (emitted ch1) (exampleTask ''a'' ''2024-01-02'' ''07:40'' 10 False True)))"
proof -
  let ?a = "exampleTask ''a'' ''2024-01-02'' ''07:40'' 10 False False"
  let ?b = "exampleTask ''b'' ''2024-01-02'' ''09:00'' 15 False False"
  have h1: "?a \<in> set [?a, ?b]" by simp
  have h2: "distinct (map task_id [?a, ?b])" by (simp add: exampleTask_def)
  have h3: "\<not> completed ?a" by (simp add: exampleTask_def)
  have h4: "\<not> notified ?a" by (simp add: exampleTask_def)
  have h5: "scheduledTime ?a = Num 1704181200000" by code_simp
  have h6: "(1704181200000 :: int) - remindBefore ?a * 60000 \<le> 1704180600000"
    by (simp add: exampleTask_def)
  have h7: "length (alertsFor (task_id ?a) emptyChannel) \<le> 1"
    by (simp add: alertsFor_def emptyChannel_def)
  have i: "task_id ?a = ''a''" "count_list (emitted emptyChannel) ?a = 0"
    "?a\<lparr>notified := True\<rparr> = exampleTask ''a'' ''2024-01-02'' ''07:40'' 10 False True"
    by (simp_all add: exampleTask_def emptyChannel_def)
  from exactly_once_firing [OF h1 h2 h3 h4 h5 h6 h7, of exampleEnv]
  obtain ts1 ch1 where
    r: "tick exampleEnv 1704180600000 ([?a, ?b], emptyChannel) = Inr (ts1, ch1)"
      "count_list (emitted ch1) ?a = count_list (emitted emptyChannel) ?a + 1"
      "length (alertsFor (task_id ?a) ch1) = 1"
      "?a\<lparr>notified := True\<rparr> \<in> set ts1"
      "\<forall>now2. \<exists>ts2 ch2. tick exampleEnv now2 (ts1, ch1) = Inr (ts2, ch2) \<and>
              alertsFor (task_id ?a) ch2 = alertsFor (task_id ?a) ch1 \<and>
              (\<forall>u. task_id u = task_id ?a \<longrightarrow>
                 count_list (emitted ch2) u = count_list (emitted ch1) u)"
    by blast
  from r(5) obtain ts2 ch2 where
    r2: "tick exampleEnv 1704180630000 (ts1, ch1) = Inr (ts2, ch2)"
      "alertsFor (task_id ?a) ch2 = alertsFor (task_id ?a) ch1"
      "\<forall>u. task_id u = task_id ?a \<longrightarrow>
                 count_list (emitted ch2) u = count_list (emitted ch1) u"
    by blast
  have "task_id (exampleTask ''a'' ''2024-01-02'' ''07:40'' 10 False True) = task_id ?a"
    by (simp add: exampleTask_def)
  with r2(3) have r3: "count_list (emitted ch2) (exampleTask ''a'' ''2024-01-02'' ''07:40'' 10 False True) =
           count_list (emitted ch1) (exampleTask ''a'' ''2024-01-02'' ''07:40'' 10 False True)"
    by blast
  from r r2(1,2) r3 i have
    "\<exists>ts1 ch1.
      tick exampleEnv 1704180600000 ([?a, ?b], emptyChannel) = Inr (ts1, ch1) \<and>
      count_list (emitted ch1) ?a = 1 \<and>
      length (alertsFor ''a'' ch1) = 1 \<and>
      exampleTask ''a'' ''2024-01-02'' ''07:40'' 10 False True \<in> set ts1 \<and>
      (\<exists>ts2 ch2. tick exampleEnv 1704180630000 (ts1, ch1) = Inr (ts2, ch2) \<and>
         alertsFor ''a'' ch2 = alertsFor ''a'' ch1 \<and>
         count_list (emitted ch2) (exampleTask ''a'' ''2024-01-02'' ''07:40'' 10 False True) =
           count_list (emitted ch1) (exampleTask ''a'' ''2024-01-02'' ''07:40'' 10 False True))"
    by (intro exI [of _ ts1] exI [of _ ch1] exI [of _ ts2] exI [of _ ch2] conjI) simp_all
  with h1 h2 h3 h4 h5 h6 h7 show ?thesis by blast
qed

section \<open>No firing before the trigger instant\<close>

lemma marked_task_id: "task_id (marked nowTime v) = task_id v"
  by (simp add: marked_def)

lemma tick_set:
  assumes "tick e nowTime (ts, ch) = Inr (ts1, ch1)"
  shows "set ts1 = marked nowTime ` set ts"
  using tick_tasks [OF assms] by (metis mset_eq_setD set_map)

lemma tick_distinct_ids:
  assumes "tick e nowTime (ts, ch) = Inr (ts1, ch1)" and "distinct (map task_id ts)"
  shows "distinct (map task_id ts1)"
proof -
  have "mset (map task_id ts1) = image_mset task_id (mset (map (marked nowTime) ts))"
    using tick_tasks [OF assms(1)] by (metis mset_map)
  also have "\<dots> = mset (map task_id ts)"
    by (simp add: multiset.map_comp comp_def marked_task_id)
  finally show ?thesis using assms(2) mset_eq_imp_distinct_iff by blast
qed

lemma tick_before_trigger:
  assumes tk: "tick e nowTime (ts, ch) = Inr (ts1, ch1)"
    and "t \<in> set ts" and "distinct (map task_id ts)" and "scheduledTime t = Num s"
    and lt: "nowTime < s - remindBefore t * 60000"
  shows "t \<in> set ts1"
    and "alertsFor (task_id t) ch1 = alertsFor (task_id t) ch"
    and "task_id u = task_id t \<Longrightarrow> count_list (emitted ch1) u = count_list (emitted ch) u"
proof -
  have nq: "\<not> qualifies nowTime t" using lt assms(4) by (simp add: qualifies_due)
  then have "marked nowTime t = t" by (simp add: marked_def)
  with assms(2) tick_set [OF tk] show "t \<in> set ts1" by force
  have only: "\<forall>u\<in>set ts. qualifies nowTime u \<longrightarrow> task_id u \<noteq> task_id t"
    using distinct_ids_unique [OF assms(3) assms(2)] nq by blast
  show "alertsFor (task_id t) ch1 = alertsFor (task_id t) ch"
    using tick_alertsFor_same [OF tk only] .
  show "count_list (emitted ch1) u = count_list (emitted ch) u" if "task_id u = task_id t"
  proof (cases "u \<in> set ts \<and> qualifies nowTime u")
    case True
    with only that show ?thesis by blast
  next
    case False
    then have "(if qualifies nowTime u then count_list ts u else 0) = 0"
      by (auto simp: count_list_0_iff)
    with tick_emitted_count [OF tk, of u] show ?thesis by simp
  qed
qed

lemma tick_at_trigger:
  assumes tk: "tick e nowTime (ts, ch) = Inr (ts1, ch1)"
    and "t \<in> set ts" and "distinct (map task_id ts)" and "scheduledTime t = Num s"
    and ge: "s - remindBefore t * 60000 \<le> nowTime" and p: "\<not> completed t" "\<not> notified t"
  shows "count_list (emitted ch1) t = count_list (emitted ch) t + 1"
    and "alertsFor (task_id t) ch1 \<noteq> []"
    and "alertsFor (task_id t) ch = [] \<longrightarrow> (\<exists>a. alertsFor (task_id t) ch1 = [a])"
    and "t\<lparr>notified := True\<rparr> \<in> set ts1"
proof -
  have dist: "distinct ts" using assms(3) by (simp add: distinct_map)
  have q: "qualifies nowTime t" using ge p assms(4) by (simp add: qualifies_due)
  show "count_list (emitted ch1) t = count_list (emitted ch) t + 1"
    using tick_emitted_count [OF tk, of t] q count_list_distinct [OF dist assms(2)] by simp
  have len: "length (alertsFor (task_id t) ch1) =
        (if alertsFor (task_id t) ch = [] then 1 else length (alertsFor (task_id t) ch))"
    using tick_alertsFor_length [OF tk, of "task_id t"] assms(2) q by auto
  then show "alertsFor (task_id t) ch1 \<noteq> []" by (auto split: if_splits)
  show "alertsFor (task_id t) ch = [] \<longrightarrow> (\<exists>a. alertsFor (task_id t) ch1 = [a])"
    using len by (auto simp: length_Suc_conv)
  have "marked nowTime t = t\<lparr>notified := True\<rparr>" using q by (simp add: marked_def)
  with assms(2) tick_set [OF tk] show "t\<lparr>notified := True\<rparr> \<in> set ts1" by force
qed

lemma runTicks_before_trigger:
  assumes "t \<in> set ts" and "distinct (map task_id ts)" and "scheduledTime t = Num s"
    and "\<forall>n\<in>set earlier. n < s - remindBefore t * 60000"
  shows "\<exists>ts0 ch0. runTicks e earlier (ts, ch) = Inr (ts0, ch0) \<and>
           t \<in> set ts0 \<and> distinct (map task_id ts0) \<and>
           alertsFor (task_id t) ch0 = alertsFor (task_id t) ch \<and>
           (\<forall>u. task_id u = task_id t \<longrightarrow>
              count_list (emitted ch0) u = count_list (emitted ch) u)"
  using assms
proof (induction earlier arbitrary: ts ch)
  case Nil
  then show ?case by simp
next
  case (Cons n ns)
  obtain ts1 ch1 where tk: "tick e n (ts, ch) = Inr (ts1, ch1)"
    using tick_total by blast
  have lt: "n < s - remindBefore t * 60000" using Cons.prems(4) by simp
  note b = tick_before_trigger [OF tk Cons.prems(1,2,3) lt]
  have d: "distinct (map task_id ts1)" using tick_distinct_ids [OF tk Cons.prems(2)] .
  have rest: "\<forall>n\<in>set ns. n < s - remindBefore t * 60000" using Cons.prems(4) by simp
  from Cons.IH [OF b(1) d Cons.prems(3) rest, of ch1] obtain ts0 ch0 where
    r: "runTicks e ns (ts1, ch1) = Inr (ts0, ch0)" "t \<in> set ts0" "distinct (map task_id ts0)"
      "alertsFor (task_id t) ch0 = alertsFor (task_id t) ch1"
      "\<forall>u. task_id u = task_id t \<longrightarrow> count_list (emitted ch0) u = count_list (emitted ch1) u"
    by blast
  have "runTicks e (n # ns) (ts, ch) = Inr (ts0, ch0)" using tk r(1) by simp
  moreover have "alertsFor (task_id t) ch0 = alertsFor (task_id t) ch" using r(4) b(2) by simp
  moreover have "\<forall>u. task_id u = task_id t \<longrightarrow>
              count_list (emitted ch0) u = count_list (emitted ch) u"
    using r(5) b(3) by simp
  ultimately show ?case using r(2,3) by blast
qed

text \<open>
  Claim C2. For a task with start instant \<open>s\<close> (a valid instant) and lead time
  \<open>remindBefore\<close> minutes: ticks at times before \<open>s - remindBefore * 60000\<close> make no call
  of \<^verbatim>\<open>triggerNotification\<close> for the task, add no alert for it and leave the task as it is
  in the list; the next tick, when it comes at or after that instant with the task
  neither completed nor notified, calls \<^verbatim>\<open>triggerNotification\<close> for it once, after which
  the channel holds an alert for it (exactly one new alert when none was there) and the
  task is stored with \<open>notified\<close> set. Task identifiers are unique in the list.
\<close>

theorem no_firing_before_trigger:
  assumes "t \<in> set ts" and "distinct (map task_id ts)" and "scheduledTime t = Num s"
    and "\<forall>n\<in>set earlier. n < s - remindBefore t * 60000"
  shows "\<exists>ts0 ch0. runTicks e earlier (ts, ch) = Inr (ts0, ch0) \<and>
           t \<in> set ts0 \<and>
           alertsFor (task_id t) ch0 = alertsFor (task_id t) ch \<and>
           (\<forall>u. task_id u = task_id t \<longrightarrow>
              count_list (emitted ch0) u = count_list (emitted ch) u) \<and>
           (\<exists>ts1 ch1. tick e nowTime (ts0, ch0) = Inr (ts1, ch1) \<and>
              (nowTime < s - remindBefore t * 60000 \<longrightarrow>
                 t \<in> set ts1 \<and>
                 alertsFor (task_id t) ch1 = alertsFor (task_id t) ch \<and>
                 (\<forall>u. task_id u = task_id t \<longrightarrow>
                    count_list (emitted ch1) u = count_list (emitted ch) u)) \<and>
              (s - remindBefore t * 60000 \<le> nowTime \<and> \<not> completed t \<and> \<not> notified t \<longrightarrow>
                 count_list (emitted ch1) t = count_list (emitted ch) t + 1 \<and>
                 alertsFor (task_id t) ch1 \<noteq> [] \<and>
                 (alertsFor (task_id t) ch = [] \<longrightarrow> (\<exists>a. alertsFor (task_id t) ch1 = [a])) \<and>
                 t\<lparr>notified := True\<rparr> \<in> set ts1))"
proof -
  from runTicks_before_trigger [OF assms, of e ch] obtain ts0 ch0 where
    r: "runTicks e earlier (ts, ch) = Inr (ts0, ch0)" "t \<in> set ts0" "distinct (map task_id ts0)"
      "alertsFor (task_id t) ch0 = alertsFor (task_id t) ch"
      "\<forall>u. task_id u = task_id t \<longrightarrow> count_list (emitted ch0) u = count_list (emitted ch) u"
    by blast
  obtain ts1 ch1 where tk: "tick e nowTime (ts0, ch0) = Inr (ts1, ch1)"
    using tick_total by blast
  have early: "t \<in> set ts1 \<and>
                 alertsFor (task_id t) ch1 = alertsFor (task_id t) ch \<and>
                 (\<forall>u. task_id u = task_id t \<longrightarrow>
                    count_list (emitted ch1) u = count_list (emitted ch) u)"
    if lt: "nowTime < s - remindBefore t * 60000"
    using tick_before_trigger [OF tk r(2,3) assms(3) lt] r(4,5) by simp
  have due: "count_list (emitted ch1) t = count_list (emitted ch) t + 1 \<and>
                 alertsFor (task_id t) ch1 \<noteq> [] \<and>
                 (alertsFor (task_id t) ch = [] \<longrightarrow> (\<exists>a. alertsFor (task_id t) ch1 = [a])) \<and>
                 t\<lparr>notified := True\<rparr> \<in> set ts1"
    if ge: "s - remindBefore t * 60000 \<le> nowTime" and p: "\<not> completed t" "\<not> notified t"
    using tick_at_trigger [OF tk r(2,3) assms(3) ge p] r(4,5) by simp
  from r(1,2,4,5) tk early due show ?thesis by blast
qed

theorem no_firing_before_trigger_witness:
  "exampleTask ''a'' ''2024-01-02'' ''07:40'' 10 False False
     \<in> set [exampleTask ''a'' ''2024-01-02'' ''07:40'' 10 False False] \<and>
   distinct (map task_id [exampleTask ''a'' ''2024-01-02'' ''07:40'' 10 False False]) \<and>
   scheduledTime (exampleTask ''a'' ''2024-01-02'' ''07:40'' 10 False False) = Num 1704181200000 \<and>
   (1704180540000 :: int) < 1704181200000 - 10 * 60000 \<and>
   (1704180570000 :: int) < 1704181200000 - 10 * 60000 \<and>
   (1704181200000 :: int) - 10 * 60000 \<le> 1704180600000 \<and>
   (\<exists>ts0 ch0.
      runTicks exampleEnv [1704180540000, 1704180570000]
        ([exampleTask ''a'' ''2024-01-02'' ''07:40'' 10 False False], emptyChannel) = Inr (ts0, ch0) \<and>
      exampleTask ''a'' ''2024-01-02'' ''07:40'' 10 False False \<in> set ts0 \<and>
      alertsFor ''a'' ch0 = [] \<and>
      count_list (emitted ch0) (exampleTask ''a'' ''2024-01-02'' ''07:40'' 10 False False) = 0 \<and>
      (\<exists>ts1 ch1. tick exampleEnv 1704180600000 (ts0, ch0) = Inr (ts1, ch1) \<and>
         count_list (emitted ch1) (exampleTask ''a'' ''2024-01-02'' ''07:40'' 10 False False) = 1 \<and>
         (\<exists>a. alertsFor ''a'' ch1 = [a]) \<and>
         exampleTask ''a'' ''2024-01-02'' ''07:40'' 10 False True \<in> set ts1))"
proof -
  let ?a = "exampleTask ''a'' ''2024-01-02'' ''07:40'' 10 False False"
  have h1: "?a \<in> set [?a]" by simp
  have h2: "distinct (map task_id [?a])" by simp
  have h3: "scheduledTime ?a = Num 1704181200000" by code_simp
  have rb: "remindBefore ?a = 10" by (simp add: exampleTask_def)
  have h4: "\<forall>n\<in>set [1704180540000, 1704180570000]. n < 1704181200000 - remindBefore ?a * 60000"
    by (simp add: rb)
  have i: "task_id ?a = ''a''" "\<not> completed ?a" "\<not> notified ?a"
    "alertsFor ''a'' emptyChannel = []" "count_list (emitted emptyChannel) ?a = 0"
    "?a\<lparr>notified := True\<rparr> = exampleTask ''a'' ''2024-01-02'' ''07:40'' 10 False True"
    by (simp_all add: exampleTask_def emptyChannel_def alertsFor_def)
  from no_firing_before_trigger [OF h1 h2 h3 h4, of exampleEnv emptyChannel 1704180600000]
  obtain ts0 ch0 ts1 ch1 where
    r: "runTicks exampleEnv [1704180540000, 1704180570000] ([?a], emptyChannel) = Inr (ts0, ch0)"
      "?a \<in> set ts0"
      "alertsFor (task_id ?a) ch0 = alertsFor (task_id ?a) emptyChannel"
      "count_list (emitted ch0) ?a = count_list (emitted emptyChannel) ?a"
      "tick exampleEnv 1704180600000 (ts0, ch0) = Inr (ts1, ch1)"
      "1704181200000 - remindBefore ?a * 60000 \<le> 1704180600000 \<and> \<not> completed ?a \<and> \<not> notified ?a \<longrightarrow>
         count_list (emitted ch1) ?a = count_list (emitted emptyChannel) ?a + 1 \<and>
         alertsFor (task_id ?a) ch1 \<noteq> [] \<and>
         (alertsFor (task_id ?a) emptyChannel = [] \<longrightarrow> (\<exists>a. alertsFor (task_id ?a) ch1 = [a])) \<and>
         ?a\<lparr>notified := True\<rparr> \<in> set ts1"
    by blast
  from r(6) i rb have d:
    "count_list (emitted ch1) ?a = 1"
    "\<exists>a. alertsFor ''a'' ch1 = [a]"
    "exampleTask ''a'' ''2024-01-02'' ''07:40'' 10 False True \<in> set ts1"
    by simp_all
  from r(1-5) d i have
    "\<exists>ts0 ch0.
      runTicks exampleEnv [1704180540000, 1704180570000] ([?a], emptyChannel) = Inr (ts0, ch0) \<and>
      ?a \<in> set ts0 \<and>
      alertsFor ''a'' ch0 = [] \<and>
      count_list (emitted ch0) ?a = 0 \<and>
      (\<exists>ts1 ch1. tick exampleEnv 1704180600000 (ts0, ch0) = Inr (ts1, ch1) \<and>
         count_list (emitted ch1) ?a = 1 \<and>
         (\<exists>a. alertsFor ''a'' ch1 = [a]) \<and>
         exampleTask ''a'' ''2024-01-02'' ''07:40'' 10 False True \<in> set ts1)"
    by (intro exI [of _ ts0] exI [of _ ch0] exI [of _ ts1] exI [of _ ch1] conjI) simp_all
  with h1 h2 h3 show ?thesis by simp
qed

section \<open>Completed tasks\<close>

text \<open>
  Claim C4. A completed task is skipped by every tick, whatever its trigger instant and
  its \<open>notified\<close> flag: the tick makes no call of \<^verbatim>\<open>triggerNotification\<close> for it, the task
  stays in the list exactly as it was (so \<open>notified\<close> keeps its value), and, identifiers
  being unique in the list, the alerts of the channel for it are unchanged.
\<close>

theorem completed_tasks_never_fire:
  assumes "t \<in> set ts" and "completed t"
  shows "\<exists>ts1 ch1. tick e nowTime (ts, ch) = Inr (ts1, ch1) \<and>
           t \<in> set ts1 \<and>
           count_list ts1 t = count_list ts t \<and>
           count_list (emitted ch1) t = count_list (emitted ch) t \<and>
           (distinct (map task_id ts) \<longrightarrow>
              alertsFor (task_id t) ch1 = alertsFor (task_id t) ch \<and>
              (\<forall>u\<in>set ts1. task_id u = task_id t \<longrightarrow> u = t) \<and>
              (\<forall>u. task_id u = task_id t \<longrightarrow>
                 count_list (emitted ch1) u = count_list (emitted ch) u))"
proof -
  obtain ts1 ch1 where tk: "tick e nowTime (ts, ch) = Inr (ts1, ch1)"
    using tick_total by blast
  have nq: "\<not> qualifies nowTime t" using assms(2) by (simp add: qualifies_def)
  then have m: "marked nowTime t = t" by (simp add: marked_def)
  with assms(1) tick_set [OF tk] have a: "t \<in> set ts1" by force
  have pre: "marked nowTime u = t \<longleftrightarrow> u = t" for u
    using assms(2) m by (auto simp: marked_def qualifies_def) 
  have "count_list ts1 t = count (mset ts1) t" by (simp only: count_mset)
  also have "\<dots> = count (mset (map (marked nowTime) ts)) t" using tick_tasks [OF tk] by simp
  also have "\<dots> = count_list (map (marked nowTime) ts) t" by (simp only: count_mset)
  also have "\<dots> = count_list ts t"
    by (induction ts) (auto simp: pre)
  finally have b: "count_list ts1 t = count_list ts t" .
  have c: "count_list (emitted ch1) t = count_list (emitted ch) t"
    using tick_emitted_count [OF tk, of t] nq by simp
  have d: "alertsFor (task_id t) ch1 = alertsFor (task_id t) ch \<and>
              (\<forall>u\<in>set ts1. task_id u = task_id t \<longrightarrow> u = t) \<and>
              (\<forall>u. task_id u = task_id t \<longrightarrow>
                 count_list (emitted ch1) u = count_list (emitted ch) u)"
    if dist: "distinct (map task_id ts)"
  proof -
    have only: "\<forall>u\<in>set ts. qualifies nowTime u \<longrightarrow> task_id u \<noteq> task_id t"
      using distinct_ids_unique [OF dist assms(1)] nq by blast
    have d1: "alertsFor (task_id t) ch1 = alertsFor (task_id t) ch"
      using tick_alertsFor_same [OF tk only] .
    have d2: "\<forall>u\<in>set ts1. task_id u = task_id t \<longrightarrow> u = t"
      using distinct_ids_unique [OF tick_distinct_ids [OF tk dist] a] by blast
    have d3: "count_list (emitted ch1) u = count_list (emitted ch) u" if "task_id u = task_id t" for u
    proof (cases "u \<in> set ts \<and> qualifies nowTime u")
      case True
      with only that show ?thesis by blast
    next
      case False
      then have "(if qualifies nowTime u then count_list ts u else 0) = 0"
        by (auto simp: count_list_0_iff)
      with tick_emitted_count [OF tk, of u] show ?thesis by simp
    qed
    from d1 d2 d3 show ?thesis by blast
  qed
  from tk a b c d show ?thesis by blast
qed

theorem completed_tasks_never_fire_witness:
  "exampleTask ''a'' ''2024-01-02'' ''07:40'' 10 True False
     \<in> set [exampleTask ''a'' ''2024-01-02'' ''07:40'' 10 True False] \<and>
   completed (exampleTask ''a'' ''2024-01-02'' ''07:40'' 10 True False) \<and>
   js_ge (Num 1704190000000) (triggerTime (exampleTask ''a'' ''2024-01-02'' ''07:40'' 10 True False)) \<and>
   (\<exists>ts1 ch1.
      tick exampleEnv 1704190000000
        ([exampleTask ''a'' ''2024-01-02'' ''07:40'' 10 True False], emptyChannel) = Inr (ts1, ch1) \<and>
      exampleTask ''a'' ''2024-01-02'' ''07:40'' 10 True False \<in> set ts1 \<and>
      count_list (emitted ch1) (exampleTask ''a'' ''2024-01-02'' ''07:40'' 10 True False) = 0 \<and>
      alertsFor ''a'' ch1 = [])"
proof -
  let ?a = "exampleTask ''a'' ''2024-01-02'' ''07:40'' 10 True False"
  have h1: "?a \<in> set [?a]" by simp
  have h2: "completed ?a" by (simp add: exampleTask_def)
  have h3: "js_ge (Num 1704190000000) (triggerTime ?a)" by code_simp
  have i: "task_id ?a = ''a''" "distinct (map task_id [?a])"
    "alertsFor ''a'' emptyChannel = []" "count_list (emitted emptyChannel) ?a = 0"
    by (simp_all add: exampleTask_def emptyChannel_def alertsFor_def)
  from completed_tasks_never_fire [OF h1 h2, of exampleEnv 1704190000000 emptyChannel]
  obtain ts1 ch1 where
    r: "tick exampleEnv 1704190000000 ([?a], emptyChannel) = Inr (ts1, ch1)"
      "?a \<in> set ts1"
      "count_list (emitted ch1) ?a = count_list (emitted emptyChannel) ?a"
      "distinct (map task_id [?a]) \<longrightarrow>
         alertsFor (task_id ?a) ch1 = alertsFor (task_id ?a) emptyChannel"
    by blast
  from r i have
    "\<exists>ts1 ch1.
      tick exampleEnv 1704190000000 ([?a], emptyChannel) = Inr (ts1, ch1) \<and>
      ?a \<in> set ts1 \<and> count_list (emitted ch1) ?a = 0 \<and> alertsFor ''a'' ch1 = []"
    by (intro exI [of _ ts1] exI [of _ ch1] conjI) simp_all
  with h1 h2 h3 show ?thesis by simp
qed

section \<open>Replacing the tasks of a date\<close>

lemma blueprintFrom_date: "u \<in> set (blueprintFrom e n d entries) \<Longrightarrow> date u = d"
  by (induction e n d entries rule: blueprintFrom.induct) auto

lemma blueprintFrom_length: "length (blueprintFrom e n d entries) = length entries"
  by (induction e n d entries rule: blueprintFrom.induct) auto

text \<open>
  Claim C7. Replacing the tasks of a date: the new collection holds exactly the prior
  tasks whose date differs from \<open>d\<close>, each as it was and as often as it was, plus the
  replacement tasks; no prior task dated \<open>d\<close> survives. \<^verbatim>\<open>resetTemplateForDay\<close> is this
  replacement with the five template tasks, all dated \<open>d\<close>.
\<close>

theorem template_replace_is_destructive:
  "mset (replaceForDate d newTasks prev) = mset (filter (\<lambda>t. date t \<noteq> d) prev) + mset newTasks \<and>
   (\<forall>t. date t \<noteq> d \<longrightarrow> count_list (replaceForDate d newTasks prev) t =
        count_list prev t + count_list newTasks t) \<and>
   (\<forall>t. date t = d \<longrightarrow> count_list (replaceForDate d newTasks prev) t = count_list newTasks t) \<and>
   resetTemplateForDay e n d prev = replaceForDate d (blueprintFrom e n d templateBlueprint) prev \<and>
   length (blueprintFrom e n d templateBlueprint) = 5 \<and>
   (\<forall>u\<in>set (blueprintFrom e n d templateBlueprint). date u = d)"
proof -
  have m: "mset (replaceForDate d newTasks prev) =
      mset (filter (\<lambda>t. date t \<noteq> d) prev) + mset newTasks"
    by (simp add: replaceForDate_def mset_sortTasks)
  have c: "count_list (replaceForDate d newTasks prev) t =
      count_list (filter (\<lambda>t. date t \<noteq> d) prev) t + count_list newTasks t" for t
  proof -
    have "count_list (replaceForDate d newTasks prev) t = count (mset (replaceForDate d newTasks prev)) t"
      by (simp only: count_mset)
    also have "\<dots> = count (mset (filter (\<lambda>t. date t \<noteq> d) prev)) t + count (mset newTasks) t"
      by (simp only: m count_union)
    finally show ?thesis by (simp only: count_mset)
  qed
  have c1: "\<forall>t. date t \<noteq> d \<longrightarrow> count_list (replaceForDate d newTasks prev) t =
        count_list prev t + count_list newTasks t"
    by (simp add: c count_list_filter)
  have c2: "\<forall>t. date t = d \<longrightarrow> count_list (replaceForDate d newTasks prev) t = count_list newTasks t"
    by (simp add: c count_list_filter)
  have b: "length (blueprintFrom e n d templateBlueprint) = 5"
    by (simp add: blueprintFrom_length templateBlueprint_def)
  from m c1 c2 b blueprintFrom_date show ?thesis
    by (auto simp: resetTemplateForDay_def)
qed

theorem template_replace_is_destructive_witness:
  "mset (resetTemplateForDay exampleEnv 0 ''2024-01-02''
          [exampleTask ''a'' ''2024-01-01'' ''07:40'' 10 False False,
           exampleTask ''b'' ''2024-01-02'' ''09:00'' 15 False True,
           exampleTask ''c'' ''2024-01-03'' ''12:00'' 0 True False]) =
     mset [exampleTask ''a'' ''2024-01-01'' ''07:40'' 10 False False,
           exampleTask ''c'' ''2024-01-03'' ''12:00'' 0 True False] +
     mset (blueprintFrom exampleEnv 0 ''2024-01-02'' templateBlueprint) \<and>
   count_list (resetTemplateForDay exampleEnv 0 ''2024-01-02''
          [exampleTask ''a'' ''2024-01-01'' ''07:40'' 10 False False,
           exampleTask ''b'' ''2024-01-02'' ''09:00'' 15 False True,
           exampleTask ''c'' ''2024-01-03'' ''12:00'' 0 True False])
      (exampleTask ''b'' ''2024-01-02'' ''09:00'' 15 False True) = 0 \<and>
   length (resetTemplateForDay exampleEnv 0 ''2024-01-02''
          [exampleTask ''a'' ''2024-01-01'' ''07:40'' 10 False False,
           exampleTask ''b'' ''2024-01-02'' ''09:00'' 15 False True,
           exampleTask ''c'' ''2024-01-03'' ''12:00'' 0 True False]) = 7"
proof -
  let ?a = "exampleTask ''a'' ''2024-01-01'' ''07:40'' 10 False False"
  let ?b = "exampleTask ''b'' ''2024-01-02'' ''09:00'' 15 False True"
  let ?c = "exampleTask ''c'' ''2024-01-03'' ''12:00'' 0 True False"
  let ?new = "blueprintFrom exampleEnv 0 ''2024-01-02'' templateBlueprint"
  let ?r = "resetTemplateForDay exampleEnv 0 ''2024-01-02'' [?a, ?b, ?c]"
  note th = template_replace_is_destructive [of "''2024-01-02''" ?new "[?a, ?b, ?c]" exampleEnv 0]
  have f: "filter (\<lambda>t. date t \<noteq> ''2024-01-02'') [?a, ?b, ?c] = [?a, ?c]"
    by (simp add: exampleTask_def)
  have db: "date ?b = ''2024-01-02''" by (simp add: exampleTask_def)
  have nb: "count_list ?new ?b = 0"
    by (simp add: templateBlueprint_def exampleTask_def)
  from th have eq: "?r = replaceForDate ''2024-01-02'' ?new [?a, ?b, ?c]" by (elim conjE)
  from th have m0: "mset (replaceForDate ''2024-01-02'' ?new [?a, ?b, ?c]) =
      mset (filter (\<lambda>t. date t \<noteq> ''2024-01-02'') [?a, ?b, ?c]) + mset ?new"
    by (elim conjE)
  have m: "mset ?r = mset [?a, ?c] + mset ?new" using m0 by (simp only: eq f)
  from th have c0: "\<forall>t. date t = ''2024-01-02'' \<longrightarrow>
      count_list (replaceForDate ''2024-01-02'' ?new [?a, ?b, ?c]) t = count_list ?new t"
    by (elim conjE)
  from c0 db have "count_list (replaceForDate ''2024-01-02'' ?new [?a, ?b, ?c]) ?b = count_list ?new ?b"
    by (elim allE impE)
  then have c: "count_list ?r ?b = 0" by (simp only: eq nb)
  from th have l0: "length ?new = 5" by (elim conjE)
  have "size (mset ?r) = size (mset [?a, ?c]) + size (mset ?new)"
    by (simp only: m size_union)
  then have "length ?r = length [?a, ?c] + length ?new" by (simp only: size_mset)
  then have l: "length ?r = 7" by (simp only: l0 list.size)
  from m c l show ?thesis by (intro conjI)
qed

section \<open>Updating a task\<close>

lemma mergeUpdates_task_id: "task_id (mergeUpdates t u) = task_id t"
  by (simp add: mergeUpdates_def)

lemma mergeUpdates_notified:
  "notified (mergeUpdates t u) = (if truthy (u_time u) \<or> truthy (u_date u) then False else notified t)"
  by (simp add: mergeUpdates_def)

text \<open>
  Claim C10. An update that carries neither a date nor a time leaves the notified flag
  of every task as it was, whatever else it carries: the \<open>notified\<close> value of the payload
  is always overwritten, so a change of \<open>remindBefore\<close> sent together with
  \<open>notified: false\<close> does not reset the flag. Stated for the merged task and for the whole
  collection (the pairs of identifier and flag are the same before and after).
\<close>

theorem update_without_date_or_time_keeps_notified:
  assumes "u_date u = None" and "u_time u = None"
  shows "notified (mergeUpdates t u) = notified t \<and>
         mset (map (\<lambda>x. (task_id x, notified x)) (handleTaskUpdate tid u prev)) =
         mset (map (\<lambda>x. (task_id x, notified x)) prev)"
proof -
  have a: "notified (mergeUpdates t u) = notified t" for t
    using assms by (simp add: mergeUpdates_notified)
  have b: "(\<lambda>x. (task_id x, notified x)) \<circ> (\<lambda>t. if task_id t = tid then mergeUpdates t u else t) =
        (\<lambda>x. (task_id x, notified x))"
    by (rule ext) (simp add: a mergeUpdates_task_id)
  have "mset (map (\<lambda>x. (task_id x, notified x)) (handleTaskUpdate tid u prev)) =
        image_mset (\<lambda>x. (task_id x, notified x)) (mset (handleTaskUpdate tid u prev))"
    by simp
  also have "\<dots> = image_mset (\<lambda>x. (task_id x, notified x))
        (mset (map (\<lambda>t. if task_id t = tid then mergeUpdates t u else t) prev))"
    by (simp only: handleTaskUpdate_def mset_sortTasks)
  also have "\<dots> = mset (map ((\<lambda>x. (task_id x, notified x)) \<circ>
        (\<lambda>t. if task_id t = tid then mergeUpdates t u else t)) prev)"
    by (simp only: mset_map map_map [symmetric])
  also have "\<dots> = mset (map (\<lambda>x. (task_id x, notified x)) prev)"
    by (simp only: b)
  finally show ?thesis using a by blast
qed

theorem update_without_date_or_time_keeps_notified_witness:
  "u_date (noUpdates\<lparr>u_remindBefore := Some 30, u_notified := Some False\<rparr>) = None \<and>
   u_time (noUpdates\<lparr>u_remindBefore := Some 30, u_notified := Some False\<rparr>) = None \<and>
   mergeUpdates (exampleTask ''a'' ''2024-01-02'' ''07:40'' 10 False True)
     (noUpdates\<lparr>u_remindBefore := Some 30, u_notified := Some False\<rparr>) =
     exampleTask ''a'' ''2024-01-02'' ''07:40'' 30 False True \<and>
   notified (mergeUpdates (exampleTask ''a'' ''2024-01-02'' ''07:40'' 10 False True)
     (noUpdates\<lparr>u_remindBefore := Some 30, u_notified := Some False\<rparr>)) =
     notified (exampleTask ''a'' ''2024-01-02'' ''07:40'' 10 False True) \<and>
   mset (map (\<lambda>x. (task_id x, notified x))
          (handleTaskUpdate ''a'' (noUpdates\<lparr>u_remindBefore := Some 30, u_notified := Some False\<rparr>)
             [exampleTask ''a'' ''2024-01-02'' ''07:40'' 10 False True])) =
     mset [(''a'', True)]"
proof -
  let ?u = "noUpdates\<lparr>u_remindBefore := Some 30, u_notified := Some False\<rparr>"
  let ?a = "exampleTask ''a'' ''2024-01-02'' ''07:40'' 10 False True"
  have h1: "u_date ?u = None" by (simp add: noUpdates_def)
  have h2: "u_time ?u = None" by (simp add: noUpdates_def)
  have m: "mergeUpdates ?a ?u = exampleTask ''a'' ''2024-01-02'' ''07:40'' 30 False True"
    by (simp add: mergeUpdates_def noUpdates_def exampleTask_def)
  have p: "map (\<lambda>x. (task_id x, notified x)) [?a] = [(''a'', True)]"
    by (simp add: exampleTask_def)
  from update_without_date_or_time_keeps_notified [OF h1 h2, of ?a "''a''" "[?a]"] p
  have "notified (mergeUpdates ?a ?u) = notified ?a"
    "mset (map (\<lambda>x. (task_id x, notified x)) (handleTaskUpdate ''a'' ?u [?a])) = mset [(''a'', True)]"
    by simp_all
  with h1 h2 m show ?thesis by (intro conjI)
qed

text \<open>
  Claim C3 at the input where the program departs from it: the task was notified, the
  update carries the empty string as its time (what the time field of the page sends
  when it is cleared, together with \<open>notified: false\<close>). The task's time is replaced, yet
  \<^verbatim>\<open>updates.time || updates.date\<close> is falsy and the notified flag stays set.
\<close>

theorem rearm_missed_for_empty_time:
  "handleTaskUpdate ''a'' (noUpdates\<lparr>u_time := Some [], u_notified := Some False\<rparr>)
     [exampleTask ''a'' ''2024-01-02'' ''07:40'' 10 False True] =
   [exampleTask ''a'' ''2024-01-02'' [] 10 False True] \<and>
   normalizeTimeValue [] = [] \<and>
   time (mergeUpdates (exampleTask ''a'' ''2024-01-02'' ''07:40'' 10 False True)
          (noUpdates\<lparr>u_time := Some [], u_notified := Some False\<rparr>)) \<noteq>
     time (exampleTask ''a'' ''2024-01-02'' ''07:40'' 10 False True) \<and>
   notified (mergeUpdates (exampleTask ''a'' ''2024-01-02'' ''07:40'' 10 False True)
          (noUpdates\<lparr>u_time := Some [], u_notified := Some False\<rparr>))"
  by (simp add: handleTaskUpdate_def mergeUpdates_def noUpdates_def exampleTask_def
      sortTasks_def normalizeTimeValue_def)

text \<open>
  What the update does for the flag in general: it is cleared when the update carries a
  non-empty date or a non-empty time, and kept otherwise (so an update of the description
  alone keeps it).
\<close>

lemma rearm_on_nonempty_date_or_time:
  "(u_time u = Some tm \<and> tm \<noteq> [] \<or> u_date u = Some d \<and> d \<noteq> []) \<Longrightarrow>
     \<not> notified (mergeUpdates t u)"
  by (auto simp: mergeUpdates_notified)

lemma description_only_keeps_notified:
  "notified (mergeUpdates t (noUpdates\<lparr>u_description := Some s\<rparr>)) = notified t"
  by (simp add: mergeUpdates_notified noUpdates_def)

section \<open>Combining a date and a time\<close>

lemma split_js_none: "sep \<notin> set a \<Longrightarrow> split_js sep a = [a]"
  by (induction a) auto

lemma split_js_append:
  "sep \<notin> set a \<Longrightarrow> split_js sep (a @ sep # b) = a # split_js sep b"
  by (induction a) auto

lemma Number_js_literals:
  "Number_js [] = DFin 0 0" "Number_js ''00'' = DFin 0 0" "Number_js ''1'' = jsOne"
  by code_simp+

lemma TimeClip_range:
  "TimeClip x = NaN \<or> (\<exists>n. TimeClip x = Num n \<and> \<bar>n\<bar> \<le> 8640000000000000)"
  by (cases x) auto

lemma Date_new_range:
  "Date_new y m d h mi = NaN \<or> (\<exists>n. Date_new y m d h mi = Num n \<and> \<bar>n\<bar> \<le> 8640000000000000)"
  by (cases "(y, m, d, h, mi)" rule: Date_new.cases) (simp_all add: Let_def TimeClip_range)

lemma Date_new_not_finite:
  "\<not> isFinite y \<or> \<not> isFinite m \<or> \<not> isFinite d \<or> \<not> isFinite h \<or> \<not> isFinite mi \<Longrightarrow>
     Date_new y m d h mi = NaN"
  by (cases "(y, m, d, h, mi)" rule: Date_new.cases) auto

lemma minusOne_not_finite: "\<not> isFinite v \<Longrightarrow> \<not> isFinite (minusOne v)"
  by (cases v) auto

lemma take3_elems:
  assumes "p \<in> set (take 3 xs)"
  shows "p = elem0 a xs \<or> p = elem1 b xs \<or> p = elem2 c xs"
proof (cases xs)
  case Nil
  with assms show ?thesis by simp
next
  case c1: (Cons x1 r1)
  show ?thesis
  proof (cases r1)
    case Nil
    with assms c1 show ?thesis by simp
  next
    case c2: (Cons x2 r2)
    with assms c1 show ?thesis by (cases r2) (auto simp: numeral_3_eq_3)
  qed
qed

lemma take2_elems:
  assumes "p \<in> set (take 2 xs)"
  shows "p = elem0 a xs \<or> p = elem1 b xs"
proof (cases xs)
  case Nil
  with assms show ?thesis by simp
next
  case c1: (Cons x1 r1)
  with assms show ?thesis by (cases r1) (auto simp: numeral_2_eq_2)
qed

text \<open>
  The claim of C8 that an invalid time part is read as \<open>00:00\<close> and that every input
  gives an instant, at a concrete input: with the letters \<^verbatim>\<open>ab:cd\<close> for the time the result
  is the invalid date, whose time value is \<^verbatim>\<open>NaN\<close>, and not midnight of that day.
\<close>

theorem invalid_time_part_is_not_defaulted:
  "combineDateTime ''2024-01-02'' ''ab:cd'' = NaN \<and>
   combineDateTime ''2024-01-02'' ''00:00'' = Num 1704153600000"
  by code_simp

text \<open>
  Claim C8 as the program has it. \<^verbatim>\<open>combineDateTime\<close> never raises: it always returns a
  \<^verbatim>\<open>Date\<close>, whose time value is \<^verbatim>\<open>NaN\<close> or at most \<open>8.64 * 10^15\<close> in magnitude. Parts that
  are missing are defaulted: a time without a colon has minutes \<open>00\<close>, the empty time is
  \<open>00:00\<close>, a date without month and day is the first of January, a date without day is
  the first of the month. A part that is there is never defaulted: when one of the parts
  that are read (the first three of the date, the first two of the time) is not read by
  \<^verbatim>\<open>Number\<close> as a finite number, the result is the invalid date.
\<close>

theorem combineDateTime_defaults:
  "(combineDateTime dstr tstr = NaN \<or>
      (\<exists>n. combineDateTime dstr tstr = Num n \<and> \<bar>n\<bar> \<le> 8640000000000000)) \<and>
   (CHR '':'' \<notin> set tstr \<longrightarrow> combineDateTime dstr tstr = combineDateTime dstr (tstr @ '':00'')) \<and>
   combineDateTime dstr [] = combineDateTime dstr ''00:00'' \<and>
   (CHR ''-'' \<notin> set y \<longrightarrow> combineDateTime y tstr = combineDateTime (y @ ''-1-1'') tstr) \<and>
   (CHR ''-'' \<notin> set y \<and> CHR ''-'' \<notin> set m \<longrightarrow>
      combineDateTime (y @ ''-'' @ m) tstr = combineDateTime (y @ ''-'' @ m @ ''-1'') tstr) \<and>
   ((\<exists>p\<in>set (take 3 (split_js CHR ''-'' dstr)). \<not> isFinite (Number_js p)) \<or>
    (\<exists>p\<in>set (take 2 (split_js CHR '':'' tstr)). \<not> isFinite (Number_js p)) \<longrightarrow>
      combineDateTime dstr tstr = NaN)"
proof -
  have 1: "combineDateTime dstr tstr = NaN \<or>
      (\<exists>n. combineDateTime dstr tstr = Num n \<and> \<bar>n\<bar> \<le> 8640000000000000)"
    unfolding combineDateTime_def Let_def by (rule Date_new_range)
  have 2: "combineDateTime dstr tstr = combineDateTime dstr (tstr @ '':00'')"
    if "CHR '':'' \<notin> set tstr"
    using that by (simp add: combineDateTime_def split_js_none split_js_append)
  have 3: "combineDateTime dstr [] = combineDateTime dstr ''00:00''"
    by (simp add: combineDateTime_def Number_js_literals)
  have 4: "combineDateTime y tstr = combineDateTime (y @ ''-1-1'') tstr"
    if "CHR ''-'' \<notin> set y"
    using that by (simp add: combineDateTime_def split_js_none split_js_append Number_js_literals)
  have 5: "combineDateTime (y @ ''-'' @ m) tstr = combineDateTime (y @ ''-'' @ m @ ''-1'') tstr"
    if "CHR ''-'' \<notin> set y" "CHR ''-'' \<notin> set m"
    using that by (simp add: combineDateTime_def split_js_none split_js_append Number_js_literals)
  have fin1: "isFinite jsOne" by code_simp
  have 6: "combineDateTime dstr tstr = NaN"
    if p: "p \<in> set (take 3 (split_js CHR ''-'' dstr))" "\<not> isFinite (Number_js p)" for p
  proof -
    let ?ds = "map Number_js (split_js CHR ''-'' dstr)"
    have "Number_js p \<in> set (take 3 ?ds)" using p(1) by (auto simp: take_map)
    from take3_elems [OF this, of DNaN jsOne jsOne] p(2)
    have "\<not> isFinite (elem0 DNaN ?ds) \<or> \<not> isFinite (elem1 jsOne ?ds) \<or>
          \<not> isFinite (elem2 jsOne ?ds)"
      by auto
    then have "\<not> isFinite (elem0 DNaN ?ds) \<or> \<not> isFinite (minusOne (elem1 jsOne ?ds)) \<or>
          \<not> isFinite (elem2 jsOne ?ds)"
      using minusOne_not_finite by blast
    then show ?thesis
      unfolding combineDateTime_def Let_def by (intro Date_new_not_finite) blast
  qed
  have 7: "combineDateTime dstr tstr = NaN"
    if p: "p \<in> set (take 2 (split_js CHR '':'' tstr))" "\<not> isFinite (Number_js p)" for p
  proof -
    let ?ts = "split_js CHR '':'' tstr"
    from take2_elems [OF p(1), of "''00''" "''00''"] p(2)
    have "\<not> isFinite (Number_js (elem0 ''00'' ?ts)) \<or> \<not> isFinite (Number_js (elem1 ''00'' ?ts))"
      by auto
    then show ?thesis
      unfolding combineDateTime_def Let_def by (intro Date_new_not_finite) blast
  qed
  from 1 2 3 4 5 6 7 show ?thesis by blast
qed

theorem combineDateTime_defaults_witness:
  "CHR '':'' \<notin> set ''7'' \<and> CHR ''-'' \<notin> set ''2024'' \<and> CHR ''-'' \<notin> set ''3'' \<and>
   ''xx'' \<in> set (take 3 (split_js CHR ''-'' ''2024-xx-02'')) \<and> \<not> isFinite (Number_js ''xx'') \<and>
   ''ab'' \<in> set (take 2 (split_js CHR '':'' ''ab:30'')) \<and> \<not> isFinite (Number_js ''ab'') \<and>
   ''Infinity'' \<in> set (take 2 (split_js CHR '':'' ''Infinity:00'')) \<and>
   \<not> isFinite (Number_js ''Infinity'') \<and>
   combineDateTime ''2024'' ''7'' = combineDateTime ''2024'' ''7:00'' \<and>
   combineDateTime ''2024'' ''7'' = combineDateTime ''2024-1-1'' ''7'' \<and>
   combineDateTime ''2024-1-1'' ''7:00'' = Num 1704092400000 \<and>
   combineDateTime ''2024-3'' ''7'' = combineDateTime ''2024-3-1'' ''7'' \<and>
   combineDateTime ''2024-01-02'' [] = combineDateTime ''2024-01-02'' ''00:00'' \<and>
   combineDateTime ''2024-xx-02'' ''07:00'' = NaN \<and>
   combineDateTime ''2024-01-02'' ''ab:30'' = NaN \<and>
   combineDateTime ''2024-01-02'' ''Infinity:00'' = NaN \<and>
   combineDateTime ''2024-01-02'' ''1e1:00'' = Num 1704189600000 \<and>
   combineDateTime ''2024-01-02'' ''7.5:0x1E'' = Num 1704180600000"
proof -
  have p1: "''xx'' \<in> set (take 3 (split_js CHR ''-'' ''2024-xx-02''))" by code_simp
  have n1: "\<not> isFinite (Number_js ''xx'')" by code_simp
  have p2: "''ab'' \<in> set (take 2 (split_js CHR '':'' ''ab:30''))" by code_simp
  have n2: "\<not> isFinite (Number_js ''ab'')" by code_simp
  have p3: "''Infinity'' \<in> set (take 2 (split_js CHR '':'' ''Infinity:00''))" by code_simp
  have n3: "\<not> isFinite (Number_js ''Infinity'')" by code_simp
  have v: "combineDateTime ''2024-1-1'' ''7:00'' = Num 1704092400000"
    "combineDateTime ''2024-01-02'' ''1e1:00'' = Num 1704189600000"
    "combineDateTime ''2024-01-02'' ''7.5:0x1E'' = Num 1704180600000"
    by code_simp+
  note a = combineDateTime_defaults [of "''2024''" "''7''" "''2024''" "''3''", simplified]
  note b = combineDateTime_defaults [of "''2024-01-02''" "[]" "''2024''" "''3''"]
  note c = combineDateTime_defaults [of "''2024-xx-02''" "''07:00''" "''2024''" "''3''"]
  note d = combineDateTime_defaults [of "''2024-01-02''" "''ab:30''" "''2024''" "''3''"]
  note e = combineDateTime_defaults [of "''2024-01-02''" "''Infinity:00''" "''2024''" "''3''"]
  from a have a': "combineDateTime ''2024'' ''7'' = combineDateTime ''2024'' ''7:00''"
    "combineDateTime ''2024'' ''7'' = combineDateTime ''2024-1-1'' ''7''"
    "combineDateTime ''2024-3'' ''7'' = combineDateTime ''2024-3-1'' ''7''"
    by blast+
  from b have b': "combineDateTime ''2024-01-02'' [] = combineDateTime ''2024-01-02'' ''00:00''"
    by blast
  from c p1 n1 have c': "combineDateTime ''2024-xx-02'' ''07:00'' = NaN" by blast
  from d p2 n2 have d': "combineDateTime ''2024-01-02'' ''ab:30'' = NaN" by blast
  from e p3 n3 have e': "combineDateTime ''2024-01-02'' ''Infinity:00'' = NaN" by blast
  have s: "CHR '':'' \<notin> set ''7''" "CHR ''-'' \<notin> set ''2024''" "CHR ''-'' \<notin> set ''3''"
    by simp_all
  from s p1 n1 p2 n2 p3 n3 a' v b' c' d' e' show ?thesis by (intro conjI)
qed

section \<open>The canonical order of the store\<close>

lemma valid_Num: "validTask t \<Longrightarrow> scheduledTime t = Num (startMs t)"
  by (cases "scheduledTime t") (auto simp: validTask_def startMs_def)

lemma ascending_sortTasks:
  assumes "\<forall>t\<in>set xs. validTask t"
  shows "ascending (sortTasks xs)"
proof -
  have "\<forall>t\<in>set (sortTasks xs). validTask t" using assms by (simp add: set_sortTasks)
  then have "ascending (sortTasks xs) = sorted (map startMs (sortTasks xs))"
    by (rule ascending_iff_sorted)
  also have "\<dots> = sorted (map startMs (sort_key startMs xs))"
    by (simp only: sortTasks_sort_key [OF assms])
  finally show ?thesis by simp
qed

lemma sameInstant_sortTasks:
  assumes "\<forall>t\<in>set xs. validTask t"
  shows "sameInstant k (sortTasks xs) = sameInstant k xs"
proof (cases k)
  case NaN
  have "filter (\<lambda>t. scheduledTime t = NaN) ys = []" if "\<forall>t\<in>set ys. validTask t" for ys
    using that by (auto simp: filter_empty_conv validTask_def)
  with assms NaN show ?thesis by (simp add: sameInstant_def set_sortTasks)
next
  case (Num j)
  have eq: "filter (\<lambda>t. scheduledTime t = Num j) ys = filter (\<lambda>t. startMs t = j) ys"
    if "\<forall>t\<in>set ys. validTask t" for ys
    using that by (intro filter_cong) (auto simp: valid_Num)
  have "sameInstant k (sortTasks xs) = filter (\<lambda>t. startMs t = j) (sortTasks xs)"
    using assms by (simp add: sameInstant_def Num eq set_sortTasks)
  also have "\<dots> = filter (\<lambda>t. startMs t = j) xs"
    by (simp only: sortTasks_sort_key [OF assms] sort_key_stable)
  also have "\<dots> = sameInstant k xs"
    using assms by (simp add: sameInstant_def Num eq)
  finally show ?thesis .
qed

lemma sortTasks_id:
  assumes "\<forall>t\<in>set xs. validTask t" and "ascending xs"
  shows "sortTasks xs = xs"
proof -
  have "sorted (map startMs xs)" using assms ascending_iff_sorted by blast
  then have "sort_key startMs xs = xs" by (rule sort_key_id_if_sorted)
  then show ?thesis by (simp only: sortTasks_sort_key [OF assms(1)])
qed

lemma ascending_filter: "ascending xs \<Longrightarrow> ascending (filter P xs)"
  unfolding ascending_def by (rule sorted_wrt_filter)

lemma scheduledTime_completed: "scheduledTime (t\<lparr>completed := c\<rparr>) = scheduledTime t"
  by (simp add: scheduledTime_def)

lemma ascending_map_completed:
  "ascending (map (\<lambda>t. if task_id t = tid then t\<lparr>completed := c\<rparr> else t) xs) = ascending xs"
proof -
  have "sorted_wrt (\<lambda>a b. \<not> js_gt (scheduledTime a) (scheduledTime b))
      (map (\<lambda>t. if task_id t = tid then t\<lparr>completed := c\<rparr> else t) xs) =
     sorted_wrt (\<lambda>a b. \<not> js_gt (scheduledTime a) (scheduledTime b)) xs"
    by (simp add: sorted_wrt_map scheduledTime_completed if_distrib [of scheduledTime] cong: if_cong)
  then show ?thesis by (simp only: ascending_def)
qed

lemma valid_map_completed:
  "\<forall>t\<in>set xs. validTask t \<Longrightarrow>
     \<forall>t\<in>set (map (\<lambda>t. if task_id t = tid then t\<lparr>completed := c\<rparr> else t) xs). validTask t"
  by (auto simp: validTask_def scheduledTime_completed)

text \<open>
  The claim of C6 at a concrete input. The store holds a task at 09:00 followed by two
  tasks whose date is not a date (their instant is \<^verbatim>\<open>NaN\<close>); this is the order
  \<^verbatim>\<open>sortTasks\<close> gives them. Creating a task at 07:00 of the same day leaves it last: the
  comparator is \<^verbatim>\<open>NaN\<close>, that is a tie, against an invalid task, so the new task never
  meets the task at 09:00, and the collection is not in ascending order after the
  mutation.
\<close>

theorem order_lost_with_invalid_instant:
  "sortTasks [exampleTask ''a'' ''2024-01-02'' ''09:00'' 0 False False,
              exampleTask ''m'' ''someday'' ''09:00'' 0 False False,
              exampleTask ''n'' ''someday'' ''09:00'' 0 False False] =
     [exampleTask ''a'' ''2024-01-02'' ''09:00'' 0 False False,
      exampleTask ''m'' ''someday'' ''09:00'' 0 False False,
      exampleTask ''n'' ''someday'' ''09:00'' 0 False False] \<and>
   scheduledTime (exampleTask ''m'' ''someday'' ''09:00'' 0 False False) = NaN \<and>
   scheduledTime (exampleTask ''n'' ''someday'' ''09:00'' 0 False False) = NaN \<and>
   handleFormSubmit exampleEnv 0 (exampleForm ''Early'' ''2024-01-02'' ''07:00'')
     [exampleTask ''a'' ''2024-01-02'' ''09:00'' 0 False False,
      exampleTask ''m'' ''someday'' ''09:00'' 0 False False,
      exampleTask ''n'' ''someday'' ''09:00'' 0 False False] =
     [exampleTask ''a'' ''2024-01-02'' ''09:00'' 0 False False,
      exampleTask ''m'' ''someday'' ''09:00'' 0 False False,
      exampleTask ''n'' ''someday'' ''09:00'' 0 False False,
      newTask exampleEnv 0 (exampleForm ''Early'' ''2024-01-02'' ''07:00'')] \<and>
   scheduledTime (exampleTask ''a'' ''2024-01-02'' ''09:00'' 0 False False) = Num 1704186000000 \<and>
   scheduledTime (newTask exampleEnv 0 (exampleForm ''Early'' ''2024-01-02'' ''07:00'')) =
     Num 1704178800000 \<and>
   \<not> ascending
     (handleFormSubmit exampleEnv 0 (exampleForm ''Early'' ''2024-01-02'' ''07:00'')
        [exampleTask ''a'' ''2024-01-02'' ''09:00'' 0 False False,
         exampleTask ''m'' ''someday'' ''09:00'' 0 False False,
         exampleTask ''n'' ''someday'' ''09:00'' 0 False False])"
  by code_simp

text \<open>
  Claim C6 as the program has it, where every task of the prior collection and every
  task that the mutation adds or changes has a valid instant. Create (with a complete
  form), update, completion and the replacement of a
  date sort the list: afterwards the collection is in ascending order of the start
  instants, and tasks with the same instant keep the order they had in the list that was
  sorted (the prior collection with the change applied, a new task last). Completion
  changes no instant, so it moves no task when the collection was in order before.
  Removal does not sort: it keeps the remaining tasks in their prior order, so the
  collection is in order after it when it was in order before it. A form without title,
  date or time changes nothing.
\<close>

theorem store_stays_sorted:
  assumes "\<forall>t\<in>set prev. validTask t"
  shows "(f_title form \<noteq> [] \<and> f_date form \<noteq> [] \<and> f_time form \<noteq> [] \<and>
          validTask (newTask e n form) \<longrightarrow>
           ascending (handleFormSubmit e n form prev) \<and>
           sameInstant k (handleFormSubmit e n form prev) =
             sameInstant k (prev @ [newTask e n form])) \<and>
         (f_title form = [] \<or> f_date form = [] \<or> f_time form = [] \<longrightarrow>
           handleFormSubmit e n form prev = prev) \<and>
         ((\<forall>t\<in>set prev. task_id t = tid \<longrightarrow> validTask (mergeUpdates t u)) \<longrightarrow>
           ascending (handleTaskUpdate tid u prev) \<and>
           sameInstant k (handleTaskUpdate tid u prev) =
             sameInstant k (map (\<lambda>t. if task_id t = tid then mergeUpdates t u else t) prev)) \<and>
         (ascending (handleTaskCompletion tid c prev) \<and>
          sameInstant k (handleTaskCompletion tid c prev) =
            sameInstant k (map (\<lambda>t. if task_id t = tid then t\<lparr>completed := c\<rparr> else t) prev) \<and>
          (ascending prev \<longrightarrow>
             handleTaskCompletion tid c prev =
               map (\<lambda>t. if task_id t = tid then t\<lparr>completed := c\<rparr> else t) prev)) \<and>
         ((\<forall>t\<in>set newTasks. validTask t) \<longrightarrow>
           ascending (replaceForDate d newTasks prev) \<and>
           sameInstant k (replaceForDate d newTasks prev) =
             sameInstant k (filter (\<lambda>t. date t \<noteq> d) prev @ newTasks)) \<and>
         (handleTaskRemoval tid prev = filter (\<lambda>t. task_id t \<noteq> tid) prev \<and>
          (ascending prev \<longrightarrow> ascending (handleTaskRemoval tid prev)))"
proof -
  have create: "ascending (handleFormSubmit e n form prev) \<and>
           sameInstant k (handleFormSubmit e n form prev) =
             sameInstant k (prev @ [newTask e n form])"
    if c: "f_title form \<noteq> [] \<and> f_date form \<noteq> [] \<and> f_time form \<noteq> []"
      and v: "validTask (newTask e n form)"
  proof -
    have all: "\<forall>t\<in>set (prev @ [newTask e n form]). validTask t" using assms v by simp
    from c ascending_sortTasks [OF all] sameInstant_sortTasks [OF all, of k]
    show ?thesis by (simp add: handleFormSubmit_def)
  qed
  have unchanged: "handleFormSubmit e n form prev = prev"
    if "f_title form = [] \<or> f_date form = [] \<or> f_time form = []"
    using that by (simp add: handleFormSubmit_def)
  have update: "ascending (handleTaskUpdate tid u prev) \<and>
           sameInstant k (handleTaskUpdate tid u prev) =
             sameInstant k (map (\<lambda>t. if task_id t = tid then mergeUpdates t u else t) prev)"
    if v: "\<forall>t\<in>set prev. task_id t = tid \<longrightarrow> validTask (mergeUpdates t u)"
  proof -
    have all: "\<forall>t\<in>set (map (\<lambda>t. if task_id t = tid then mergeUpdates t u else t) prev). validTask t"
      using assms v by auto
    from ascending_sortTasks [OF all] sameInstant_sortTasks [OF all, of k]
    show ?thesis by (simp only: handleTaskUpdate_def)
  qed
  let ?m = "map (\<lambda>t. if task_id t = tid then t\<lparr>completed := c\<rparr> else t) prev"
  have completion: "ascending (handleTaskCompletion tid c prev) \<and>
          sameInstant k (handleTaskCompletion tid c prev) = sameInstant k ?m"
    using ascending_sortTasks [OF valid_map_completed [OF assms]]
      sameInstant_sortTasks [OF valid_map_completed [OF assms], of k]
    by (simp only: handleTaskCompletion_def)
  have inplace: "handleTaskCompletion tid c prev = ?m" if a: "ascending prev"
  proof -
    have "ascending ?m" using a by (simp only: ascending_map_completed)
    with valid_map_completed [OF assms] have "sortTasks ?m = ?m" by (rule sortTasks_id)
    then show ?thesis by (simp only: handleTaskCompletion_def)
  qed
  have replace: "ascending (replaceForDate d newTasks prev) \<and>
           sameInstant k (replaceForDate d newTasks prev) =
             sameInstant k (filter (\<lambda>t. date t \<noteq> d) prev @ newTasks)"
    if v: "\<forall>t\<in>set newTasks. validTask t"
  proof -
    have all: "\<forall>t\<in>set (filter (\<lambda>t. date t \<noteq> d) prev @ newTasks). validTask t"
      using assms v by auto
    from ascending_sortTasks [OF all] sameInstant_sortTasks [OF all, of k]
    show ?thesis by (simp only: replaceForDate_def)
  qed
  have removal: "handleTaskRemoval tid prev = filter (\<lambda>t. task_id t \<noteq> tid) prev"
    by (simp add: handleTaskRemoval_def)
  have removal_order: "ascending (handleTaskRemoval tid prev)" if "ascending prev"
    using ascending_filter [OF that] by (simp add: handleTaskRemoval_def)
  from create unchanged update completion inplace replace removal removal_order
  show ?thesis by blast
qed

theorem store_stays_sorted_witness:
  "validTask (exampleTask ''b'' ''2024-01-02'' ''09:00'' 0 False False) \<and>
   validTask (exampleTask ''a'' ''2024-01-02'' ''07:00'' 0 False False) \<and>
   validTask (newTask exampleEnv 0 (exampleForm ''New'' ''2024-01-02'' ''09:00'')) \<and>
   \<not> ascending [exampleTask ''b'' ''2024-01-02'' ''09:00'' 0 False False,
                exampleTask ''a'' ''2024-01-02'' ''07:00'' 0 False False] \<and>
   ascending (handleFormSubmit exampleEnv 0 (exampleForm ''New'' ''2024-01-02'' ''09:00'')
     [exampleTask ''b'' ''2024-01-02'' ''09:00'' 0 False False,
      exampleTask ''a'' ''2024-01-02'' ''07:00'' 0 False False]) \<and>
   sameInstant (Num 1704186000000)
     (handleFormSubmit exampleEnv 0 (exampleForm ''New'' ''2024-01-02'' ''09:00'')
       [exampleTask ''b'' ''2024-01-02'' ''09:00'' 0 False False,
        exampleTask ''a'' ''2024-01-02'' ''07:00'' 0 False False]) =
     [exampleTask ''b'' ''2024-01-02'' ''09:00'' 0 False False,
      newTask exampleEnv 0 (exampleForm ''New'' ''2024-01-02'' ''09:00'')] \<and>
   ascending (handleTaskUpdate ''a'' (noUpdates\<lparr>u_time := Some ''09:00''\<rparr>)
     [exampleTask ''b'' ''2024-01-02'' ''09:00'' 0 False False,
      exampleTask ''a'' ''2024-01-02'' ''07:00'' 0 False False]) \<and>
   sameInstant (Num 1704186000000)
     (handleTaskUpdate ''a'' (noUpdates\<lparr>u_time := Some ''09:00''\<rparr>)
       [exampleTask ''b'' ''2024-01-02'' ''09:00'' 0 False False,
        exampleTask ''a'' ''2024-01-02'' ''07:00'' 0 False False]) =
     [exampleTask ''b'' ''2024-01-02'' ''09:00'' 0 False False,
      exampleTask ''a'' ''2024-01-02'' ''09:00'' 0 False False] \<and>
   ascending (handleTaskCompletion ''b'' True
     [exampleTask ''b'' ''2024-01-02'' ''09:00'' 0 False False,
      exampleTask ''a'' ''2024-01-02'' ''07:00'' 0 False False]) \<and>
   ascending (replaceForDate ''2024-01-03''
     [exampleTask ''c'' ''2024-01-02'' ''08:00'' 0 False False]
     [exampleTask ''b'' ''2024-01-02'' ''09:00'' 0 False False,
      exampleTask ''a'' ''2024-01-02'' ''07:00'' 0 False False]) \<and>
   ascending [exampleTask ''a'' ''2024-01-02'' ''07:00'' 0 False False,
              exampleTask ''b'' ''2024-01-02'' ''09:00'' 0 False False] \<and>
   ascending (handleTaskRemoval ''a''
     [exampleTask ''a'' ''2024-01-02'' ''07:00'' 0 False False,
      exampleTask ''b'' ''2024-01-02'' ''09:00'' 0 False False]) \<and>
   handleTaskCompletion ''b'' True
     [exampleTask ''a'' ''2024-01-02'' ''07:00'' 0 False False,
      exampleTask ''b'' ''2024-01-02'' ''09:00'' 0 False False] =
     [exampleTask ''a'' ''2024-01-02'' ''07:00'' 0 False False,
      exampleTask ''b'' ''2024-01-02'' ''09:00'' 0 True False]"
proof -
  let ?a = "exampleTask ''a'' ''2024-01-02'' ''07:00'' 0 False False"
  let ?b = "exampleTask ''b'' ''2024-01-02'' ''09:00'' 0 False False"
  let ?c = "exampleTask ''c'' ''2024-01-02'' ''08:00'' 0 False False"
  let ?f = "exampleForm ''New'' ''2024-01-02'' ''09:00''"
  let ?u = "noUpdates\<lparr>u_time := Some ''09:00''\<rparr>"
  let ?k = "Num 1704186000000"
  have va: "validTask ?a" by code_simp
  have vb: "validTask ?b" by code_simp
  have h1: "\<forall>t\<in>set [?b, ?a]. validTask t" using va vb by simp
  have h2: "\<forall>t\<in>set [?a, ?b]. validTask t" using va vb by simp
  have un: "\<not> ascending [?b, ?a]" by code_simp
  have so: "ascending [?a, ?b]" by code_simp
  have cf: "f_title ?f \<noteq> [] \<and> f_date ?f \<noteq> [] \<and> f_time ?f \<noteq> []"
    by (simp add: exampleForm_def)
  have vn: "validTask (newTask exampleEnv 0 ?f)" by code_simp
  have vu: "\<forall>t\<in>set [?b, ?a]. task_id t = ''a'' \<longrightarrow> validTask (mergeUpdates t ?u)"
    by code_simp
  have vc: "\<forall>t\<in>set [?c]. validTask t" by code_simp
  have s1: "sameInstant ?k ([?b, ?a] @ [newTask exampleEnv 0 ?f]) = [?b, newTask exampleEnv 0 ?f]"
    by code_simp
  have s2: "sameInstant ?k (map (\<lambda>t. if task_id t = ''a'' then mergeUpdates t ?u else t) [?b, ?a]) =
      [?b, exampleTask ''a'' ''2024-01-02'' ''09:00'' 0 False False]"
    by code_simp
  have s3: "map (\<lambda>t. if task_id t = ''b'' then t\<lparr>completed := True\<rparr> else t) [?a, ?b] =
      [?a, exampleTask ''b'' ''2024-01-02'' ''09:00'' 0 True False]"
    by (simp add: exampleTask_def)
  note th1 = store_stays_sorted [OF h1, where e = exampleEnv and n = 0 and form = ?f
      and k = ?k and u = ?u and newTasks = "[?c]" and d = "''2024-01-03''" and c = True]
  from th1 [where tid = "''a''"] cf vn vu vc
  have r1: "ascending (handleFormSubmit exampleEnv 0 ?f [?b, ?a])"
    "sameInstant ?k (handleFormSubmit exampleEnv 0 ?f [?b, ?a]) =
       sameInstant ?k ([?b, ?a] @ [newTask exampleEnv 0 ?f])"
    "ascending (handleTaskUpdate ''a'' ?u [?b, ?a])"
    "sameInstant ?k (handleTaskUpdate ''a'' ?u [?b, ?a]) =
       sameInstant ?k (map (\<lambda>t. if task_id t = ''a'' then mergeUpdates t ?u else t) [?b, ?a])"
    "ascending (replaceForDate ''2024-01-03'' [?c] [?b, ?a])"
    by blast+
  from th1 [where tid = "''b''"]
  have r2: "ascending (handleTaskCompletion ''b'' True [?b, ?a])" by blast
  note th2 = store_stays_sorted [OF h2, where e = exampleEnv and n = 0 and form = ?f
      and k = ?k and u = ?u and newTasks = "[?c]" and d = "''2024-01-03''" and c = True]
  from th2 [where tid = "''a''"] so
  have r3: "ascending (handleTaskRemoval ''a'' [?a, ?b])" by blast
  from th2 [where tid = "''b''"] so
  have r4: "handleTaskCompletion ''b'' True [?a, ?b] =
      map (\<lambda>t. if task_id t = ''b'' then t\<lparr>completed := True\<rparr> else t) [?a, ?b]"
    by blast
  have e1: "sameInstant ?k (handleFormSubmit exampleEnv 0 ?f [?b, ?a]) =
      [?b, newTask exampleEnv 0 ?f]"
    using r1(2) s1 by (rule trans)
  have e2: "sameInstant ?k (handleTaskUpdate ''a'' ?u [?b, ?a]) =
      [?b, exampleTask ''a'' ''2024-01-02'' ''09:00'' 0 False False]"
    using r1(4) s2 by (rule trans)
  have e4: "handleTaskCompletion ''b'' True [?a, ?b] =
      [?a, exampleTask ''b'' ''2024-01-02'' ''09:00'' 0 True False]"
    using r4 s3 by (rule trans)
  from vb va vn un r1(1) e1 r1(3) e2 r2 r1(5) so r3 e4 show ?thesis by blast
qed

section \<open>Mutations for an unknown identifier\<close>

lemma map_unknown_id:
  "tid \<notin> task_id ` set prev \<Longrightarrow> map (\<lambda>t. if task_id t = tid then f t else t) prev = prev"
  by (induction prev) auto

lemma filter_unknown_id:
  "tid \<notin> task_id ` set prev \<Longrightarrow> filter (\<lambda>t. task_id t \<noteq> tid) prev = prev"
  by (induction prev) auto

text \<open>
  The claim of C9 at a concrete input. The collection holds a task at 09:00 followed by
  a task at 07:00; it is what removing the tasks \<open>m\<close> and \<open>n\<close> (whose date is not a date)
  leaves of the store \<^verbatim>\<open>sortTasks\<close> made of the four. No task has the identifier \<open>zz\<close>,
  and an update or a completion for \<open>zz\<close> still sorts the collection and so swaps the two
  tasks.
\<close>

theorem unknown_id_update_reorders:
  "sortTasks [exampleTask ''a'' ''2024-01-02'' ''09:00'' 0 False False,
              exampleTask ''m'' ''someday'' ''09:00'' 0 False False,
              exampleTask ''n'' ''someday'' ''09:00'' 0 False False,
              exampleTask ''b'' ''2024-01-02'' ''07:00'' 0 False False] =
     [exampleTask ''a'' ''2024-01-02'' ''09:00'' 0 False False,
      exampleTask ''m'' ''someday'' ''09:00'' 0 False False,
      exampleTask ''n'' ''someday'' ''09:00'' 0 False False,
      exampleTask ''b'' ''2024-01-02'' ''07:00'' 0 False False] \<and>
   handleTaskRemoval ''n'' (handleTaskRemoval ''m''
     [exampleTask ''a'' ''2024-01-02'' ''09:00'' 0 False False,
      exampleTask ''m'' ''someday'' ''09:00'' 0 False False,
      exampleTask ''n'' ''someday'' ''09:00'' 0 False False,
      exampleTask ''b'' ''2024-01-02'' ''07:00'' 0 False False]) =
     [exampleTask ''a'' ''2024-01-02'' ''09:00'' 0 False False,
      exampleTask ''b'' ''2024-01-02'' ''07:00'' 0 False False] \<and>
   ''zz'' \<notin> set (map task_id
     [exampleTask ''a'' ''2024-01-02'' ''09:00'' 0 False False,
      exampleTask ''b'' ''2024-01-02'' ''07:00'' 0 False False]) \<and>
   handleTaskUpdate ''zz'' (noUpdates\<lparr>u_description := Some ''x''\<rparr>)
     [exampleTask ''a'' ''2024-01-02'' ''09:00'' 0 False False,
      exampleTask ''b'' ''2024-01-02'' ''07:00'' 0 False False] =
     [exampleTask ''b'' ''2024-01-02'' ''07:00'' 0 False False,
      exampleTask ''a'' ''2024-01-02'' ''09:00'' 0 False False] \<and>
   handleTaskCompletion ''zz'' True
     [exampleTask ''a'' ''2024-01-02'' ''09:00'' 0 False False,
      exampleTask ''b'' ''2024-01-02'' ''07:00'' 0 False False] =
     [exampleTask ''b'' ''2024-01-02'' ''07:00'' 0 False False,
      exampleTask ''a'' ''2024-01-02'' ''09:00'' 0 False False] \<and>
   handleTaskUpdate ''zz'' (noUpdates\<lparr>u_description := Some ''x''\<rparr>)
     [exampleTask ''a'' ''2024-01-02'' ''09:00'' 0 False False,
      exampleTask ''b'' ''2024-01-02'' ''07:00'' 0 False False] \<noteq>
     [exampleTask ''a'' ''2024-01-02'' ''09:00'' 0 False False,
      exampleTask ''b'' ''2024-01-02'' ''07:00'' 0 False False]"
  by code_simp

text \<open>
  Claim C9 as the program has it: for an identifier that no task of the collection has,
  removal leaves the collection as it is, and so do update and completion when the
  collection is in the store's order (ascending, every instant valid), since all they
  then do is sort a sorted list. None of the three has an error branch.
\<close>

theorem unknown_id_is_noop:
  assumes "tid \<notin> task_id ` set prev"
  shows "handleTaskRemoval tid prev = prev \<and>
         (ascending prev \<and> (\<forall>t\<in>set prev. validTask t) \<longrightarrow>
            handleTaskUpdate tid u prev = prev \<and> handleTaskCompletion tid c prev = prev)"
proof -
  have r: "handleTaskRemoval tid prev = prev"
    using assms by (simp add: handleTaskRemoval_def filter_unknown_id)
  have s: "handleTaskUpdate tid u prev = prev \<and> handleTaskCompletion tid c prev = prev"
    if "ascending prev" "\<forall>t\<in>set prev. validTask t"
  proof -
    have "sortTasks prev = prev" using that(2,1) by (rule sortTasks_id)
    then show ?thesis
      by (simp only: handleTaskUpdate_def handleTaskCompletion_def map_unknown_id [OF assms])
  qed
  from r s show ?thesis by blast
qed

theorem unknown_id_is_noop_witness:
  "''zz'' \<notin> task_id ` set [exampleTask ''a'' ''2024-01-02'' ''07:00'' 0 False False,
                              exampleTask ''b'' ''2024-01-02'' ''09:00'' 0 False True] \<and>
   ascending [exampleTask ''a'' ''2024-01-02'' ''07:00'' 0 False False,
              exampleTask ''b'' ''2024-01-02'' ''09:00'' 0 False True] \<and>
   validTask (exampleTask ''a'' ''2024-01-02'' ''07:00'' 0 False False) \<and>
   validTask (exampleTask ''b'' ''2024-01-02'' ''09:00'' 0 False True) \<and>
   handleTaskRemoval ''zz''
     [exampleTask ''a'' ''2024-01-02'' ''07:00'' 0 False False,
      exampleTask ''b'' ''2024-01-02'' ''09:00'' 0 False True] =
     [exampleTask ''a'' ''2024-01-02'' ''07:00'' 0 False False,
      exampleTask ''b'' ''2024-01-02'' ''09:00'' 0 False True] \<and>
   handleTaskUpdate ''zz'' (noUpdates\<lparr>u_time := Some ''10:00''\<rparr>)
     [exampleTask ''a'' ''2024-01-02'' ''07:00'' 0 False False,
      exampleTask ''b'' ''2024-01-02'' ''09:00'' 0 False True] =
     [exampleTask ''a'' ''2024-01-02'' ''07:00'' 0 False False,
      exampleTask ''b'' ''2024-01-02'' ''09:00'' 0 False True] \<and>
   handleTaskCompletion ''zz'' True
     [exampleTask ''a'' ''2024-01-02'' ''07:00'' 0 False False,
      exampleTask ''b'' ''2024-01-02'' ''09:00'' 0 False True] =
     [exampleTask ''a'' ''2024-01-02'' ''07:00'' 0 False False,
      exampleTask ''b'' ''2024-01-02'' ''09:00'' 0 False True]"
proof -
  let ?a = "exampleTask ''a'' ''2024-01-02'' ''07:00'' 0 False False"
  let ?b = "exampleTask ''b'' ''2024-01-02'' ''09:00'' 0 False True"
  have h: "''zz'' \<notin> task_id ` set [?a, ?b]" by (simp add: exampleTask_def)
  have a: "ascending [?a, ?b]" by code_simp
  have va: "validTask ?a" by code_simp
  have vb: "validTask ?b" by code_simp
  have v: "\<forall>t\<in>set [?a, ?b]. validTask t" using va vb by simp
  from unknown_id_is_noop [OF h, of "noUpdates\<lparr>u_time := Some ''10:00''\<rparr>" True] a v
  have "handleTaskRemoval ''zz'' [?a, ?b] = [?a, ?b]"
    "handleTaskUpdate ''zz'' (noUpdates\<lparr>u_time := Some ''10:00''\<rparr>) [?a, ?b] = [?a, ?b]"
    "handleTaskCompletion ''zz'' True [?a, ?b] = [?a, ?b]"
    by blast+
  with h a va vb show ?thesis by (intro conjI)
qed

end
